theory Spec2Isabelle
  imports Complex_Main "HOL-Library.Word"
begin

section \<open>Data model of tread.h\<close>

text \<open>
  The terminal engine of \<^verbatim>\<open>src/tread.h\<close>, POSIX build with \<^verbatim>\<open>TR_3D\<close> defined.
  The process-wide variables of the header are the fields of the record \<open>engine\<close>,
  passed to and returned by every operation. Names are those of the source without
  their leading underscores.

  \<^item> A C \<^verbatim>\<open>int\<close> is an integer. Signed overflow, which C leaves undefined, wraps
    around on the two's complement targets the header is compiled for, and \<open>int_wrap\<close>
    writes the wrap out where a wrapped value can address a cell of a buffer: in the
    outline of a rectangle. In the other primitives a sum \<open>x + i\<close> that overflows is
    negative after the wrap and beyond the buffer before it, out of bounds either way.
  \<^item> The \<^verbatim>\<open>unsigned char\<close> channels of a color are 8-bit words.
  \<^item> A \<^verbatim>\<open>float\<close> is a value of a type \<open>'f\<close>, and the float operations of the
    platform are the fields of the record \<open>float_ops\<close>, a parameter of every function
    that computes with floats. Each field is one operation with whatever rounding,
    infinities and NaN the platform gives it.
  \<^item> A read or write outside an allocated buffer is the error \<open>InvalidAccess\<close>, a
    division by zero in the vertex transform the error \<open>DivisionByZero\<close>, a call of
    \<^verbatim>\<open>exit(1)\<close> the error \<open>ExitFailure\<close>.
\<close>

record Color =
  color_r :: "8 word"
  color_g :: "8 word"
  color_b :: "8 word"
  color_a :: "8 word"

record TR_Cell =
  character :: char
  fg_color :: Color
  bg_color :: Color

datatype tr_error = ExitFailure | InvalidAccess | DivisionByZero

text \<open>
  The float operations: \<^verbatim>\<open>+\<close>, \<^verbatim>\<open>-\<close>, \<^verbatim>\<open>*\<close>, \<^verbatim>\<open>/\<close>, \<^verbatim>\<open><\<close> (and \<^verbatim>\<open>>\<close> with
  the operands exchanged), \<^verbatim>\<open>==\<close> (and \<^verbatim>\<open>!=\<close>, its negation), the conversions
  \<^verbatim>\<open>(float)i\<close> and \<^verbatim>\<open>(int)f\<close>, and the constants \<^verbatim>\<open>0.0f\<close>, \<^verbatim>\<open>0.5f\<close> and \<^verbatim>\<open>1.0f\<close>.
\<close>

record 'f float_ops =
  f_add :: "'f \<Rightarrow> 'f \<Rightarrow> 'f"
  f_sub :: "'f \<Rightarrow> 'f \<Rightarrow> 'f"
  f_mul :: "'f \<Rightarrow> 'f \<Rightarrow> 'f"
  f_div :: "'f \<Rightarrow> 'f \<Rightarrow> 'f"
  f_lt :: "'f \<Rightarrow> 'f \<Rightarrow> bool"
  f_eq :: "'f \<Rightarrow> 'f \<Rightarrow> bool"
  f_of_int :: "int \<Rightarrow> 'f"
  f_to_int :: "'f \<Rightarrow> int"
  f_zero :: 'f
  f_half :: 'f
  f_one :: 'f

record 'f engine =
  tr_window_open :: bool
  tr_frame_time_us :: int
  tr_key_buffer :: int
  tr_screen_buffer :: "TR_Cell list"
  tr_prev_screen_buffer :: "TR_Cell list"
  tr_buffer_width :: int
  tr_buffer_height :: int
  tr_current_bg_color :: Color
  tr_initial_width :: int
  tr_initial_height :: int
  tr_z_buffer :: "'f list"
  tr_z_buffer_size :: int

text \<open>
  What the platform reports when asked: the answer of the window-size ioctl, the answer
  of \<^verbatim>\<open>select\<close> and \<^verbatim>\<open>read\<close> on standard input (the eight bytes of the local
  array \<^verbatim>\<open>buf\<close> after the read, indexed from 0), whether \<^verbatim>\<open>malloc\<close> succeeds, and
  the indeterminate contents of freshly allocated float storage.
\<close>

record 'f terminal =
  ioctl_ok :: bool
  ws_col :: nat
  ws_row :: nat
  select_result :: int
  bytes_read :: int
  key_buf :: "nat \<Rightarrow> char"
  malloc_ok :: bool
  fresh_float :: "nat \<Rightarrow> 'f"

text \<open>The calls made to the platform backend, in the order they are issued.\<close>

datatype backend_call =
    SetCursorPosition int int
  | SetTerminalColor Color Color
  | PutChar char
  | SetCursorVisibility bool
  | SetConsoleTitle string
  | ClearScreenDirect Color
  | FlushStdout

definition mk_color :: "8 word \<Rightarrow> 8 word \<Rightarrow> 8 word \<Rightarrow> 8 word \<Rightarrow> Color" where
  "mk_color rv gv bv av = \<lparr>color_r = rv, color_g = gv, color_b = bv, color_a = av\<rparr>"

definition mk_cell :: "char \<Rightarrow> Color \<Rightarrow> Color \<Rightarrow> TR_Cell" where
  "mk_cell ch fg bg = \<lparr>character = ch, fg_color = fg, bg_color = bg\<rparr>"

definition BLANK :: Color where "BLANK = mk_color 1 0 0 0"
definition BLACK :: Color where "BLACK = mk_color 0 0 0 255"
definition WHITE :: Color where "WHITE = mk_color 255 255 255 255"
definition RED :: Color where "RED = mk_color 230 41 55 255"
definition BLUE :: Color where "BLUE = mk_color 0 121 241 255"

subsection \<open>Loops and buffer accesses\<close>

text \<open>The value of a 32-bit \<^verbatim>\<open>int\<close> sum or difference after the wrap.\<close>

definition int_wrap :: "int \<Rightarrow> int" where
  "int_wrap v = (v + 2147483648) mod 4294967296 - 2147483648"

text \<open>\<^verbatim>\<open>for (int i = lo; i < hi; ++i) body\<close>, stopping at the first error.\<close>

function for_loop :: "int \<Rightarrow> int \<Rightarrow> (int \<Rightarrow> 's \<Rightarrow> tr_error + 's) \<Rightarrow> 's \<Rightarrow> tr_error + 's" where
  "for_loop i n body s =
     (if i < n then (case body i s of Inl e \<Rightarrow> Inl e | Inr s' \<Rightarrow> for_loop (i + 1) n body s')
      else Inr s)"
  by pat_completeness auto
termination
  by (relation "measure (\<lambda>(i, n, body, s). nat (n - i))") auto

declare for_loop.simps [simp del]

definition read_cell :: "TR_Cell list \<Rightarrow> int \<Rightarrow> tr_error + TR_Cell" where
  "read_cell buf index =
     (if 0 \<le> index \<and> index < int (length buf) then Inr (buf ! nat index) else Inl InvalidAccess)"

definition write_cell :: "int \<Rightarrow> TR_Cell \<Rightarrow> 'f engine \<Rightarrow> tr_error + 'f engine" where
  "write_cell index c s =
     (if 0 \<le> index \<and> index < int (length (tr_screen_buffer s))
      then Inr (s\<lparr>tr_screen_buffer := (tr_screen_buffer s)[nat index := c]\<rparr>)
      else Inl InvalidAccess)"

text \<open>\<^verbatim>\<open>memcpy(dst, src, sizeof(__TR_Cell) * n)\<close> on two cell arrays.\<close>

definition memcpy_cells :: "TR_Cell list \<Rightarrow> TR_Cell list \<Rightarrow> int \<Rightarrow> tr_error + TR_Cell list" where
  "memcpy_cells dst src n =
     (if 0 \<le> n \<and> n \<le> int (length src) \<and> n \<le> int (length dst)
      then Inr (take (nat n) src @ drop (nat n) dst)
      else Inl InvalidAccess)"

subsection \<open>Color helpers\<close>

definition tr_colors_equal :: "Color \<Rightarrow> Color \<Rightarrow> bool" where
  "tr_colors_equal c1 c2 \<longleftrightarrow>
     color_r c1 = color_r c2 \<and> color_g c1 = color_g c2 \<and> color_b c1 = color_b c2"

definition terminal_colors :: "Color list" where
  "terminal_colors =
     [mk_color 0 0 0 255, mk_color 255 0 0 255, mk_color 0 255 0 255, mk_color 255 255 0 255,
      mk_color 0 0 255 255, mk_color 255 0 255 255, mk_color 0 255 255 255,
      mk_color 255 255 255 255]"

text \<open>
  The squared distance of the loop body. The channels are promoted to \<^verbatim>\<open>int\<close> before
  the subtraction and every value is at most \<open>3 * 255\<^sup>2\<close>, so the \<^verbatim>\<open>double\<close>
  arithmetic of the source is exact and the integers are the values it computes.
\<close>

definition color_dist :: "Color \<Rightarrow> Color \<Rightarrow> int" where
  "color_dist c t =
     (uint (color_r c) - uint (color_r t)) * (uint (color_r c) - uint (color_r t)) +
     (uint (color_g c) - uint (color_g t)) * (uint (color_g c) - uint (color_g t)) +
     (uint (color_b c) - uint (color_b t)) * (uint (color_b c) - uint (color_b t))"

text \<open>One iteration of the scan over the palette; the state is \<open>(min_dist, best_match)\<close>.\<close>

definition map_color_step :: "Color \<Rightarrow> nat \<Rightarrow> int \<times> nat \<Rightarrow> int \<times> nat" where
  "map_color_step color i st =
     (let dist = color_dist color (terminal_colors ! i) in
      if fst st = -1 \<or> dist < fst st then (dist, i) else st)"

definition tr_map_color_to_terminal :: "Color \<Rightarrow> bool \<Rightarrow> int" where
  "tr_map_color_to_terminal color is_background =
     int (snd (fold (map_color_step color) [0..<8] (-1, 0)))"

subsection \<open>Input\<close>

definition TR_KEY_UP :: int where "TR_KEY_UP = 256"
definition TR_KEY_DOWN :: int where "TR_KEY_DOWN = 257"
definition TR_KEY_LEFT :: int where "TR_KEY_LEFT = 258"
definition TR_KEY_RIGHT :: int where "TR_KEY_RIGHT = 259"
definition TR_KEY_F1 :: int where "TR_KEY_F1 = 260"
definition TR_KEY_F2 :: int where "TR_KEY_F2 = 261"
definition TR_KEY_F3 :: int where "TR_KEY_F3 = 262"
definition TR_KEY_F4 :: int where "TR_KEY_F4 = 263"
definition TR_KEY_F5 :: int where "TR_KEY_F5 = 264"
definition TR_KEY_F6 :: int where "TR_KEY_F6 = 265"
definition TR_KEY_F7 :: int where "TR_KEY_F7 = 266"
definition TR_KEY_F8 :: int where "TR_KEY_F8 = 267"
definition TR_KEY_F9 :: int where "TR_KEY_F9 = 268"
definition TR_KEY_F10 :: int where "TR_KEY_F10 = 269"
definition TR_KEY_F11 :: int where "TR_KEY_F11 = 270"
definition TR_KEY_F12 :: int where "TR_KEY_F12 = 271"

text \<open>
  \<^verbatim>\<open>strcmp(&buf[2], lit) == 0\<close> for a literal of the three characters \<open>c1 c2 c3\<close>:
  the three bytes and the terminating zero byte agree.
\<close>

definition strcmp_buf2 :: "(nat \<Rightarrow> char) \<Rightarrow> char \<Rightarrow> char \<Rightarrow> char \<Rightarrow> bool" where
  "strcmp_buf2 buf c1 c2 c3 \<longleftrightarrow> buf 2 = c1 \<and> buf 3 = c2 \<and> buf 4 = c3 \<and> buf 5 = CHR 0x00"

text \<open>Conversion of a plain \<^verbatim>\<open>char\<close> (signed on the usual POSIX targets) to \<^verbatim>\<open>int\<close>.\<close>

definition char_to_int :: "char \<Rightarrow> int" where
  "char_to_int c = (if (of_char c :: int) < 128 then of_char c else of_char c - 256)"

definition tr_get_key_nonblocking :: "'f terminal \<Rightarrow> int" where
  "tr_get_key_nonblocking env =
     (let buf = key_buf env; n = bytes_read env in
      if select_result env > 0 then
        if n > 0 then
          if buf 0 = CHR 0x1B then
            if n = 3 \<and> buf 1 = CHR ''['' then
              if buf 2 = CHR ''A'' then TR_KEY_UP
              else if buf 2 = CHR ''B'' then TR_KEY_DOWN
              else if buf 2 = CHR ''C'' then TR_KEY_RIGHT
              else if buf 2 = CHR ''D'' then TR_KEY_LEFT
              else 0
            else if n = 3 \<and> buf 1 = CHR ''O'' then
              if buf 2 = CHR ''P'' then TR_KEY_F1
              else if buf 2 = CHR ''Q'' then TR_KEY_F2
              else if buf 2 = CHR ''R'' then TR_KEY_F3
              else if buf 2 = CHR ''S'' then TR_KEY_F4
              else 0
            else if n = 4 \<and> buf 1 = CHR ''['' then
              if strcmp_buf2 buf CHR ''1'' CHR ''5'' CHR ''~'' then TR_KEY_F5
              else if strcmp_buf2 buf CHR ''1'' CHR ''7'' CHR ''~'' then TR_KEY_F6
              else if strcmp_buf2 buf CHR ''1'' CHR ''8'' CHR ''~'' then TR_KEY_F7
              else if strcmp_buf2 buf CHR ''1'' CHR ''9'' CHR ''~'' then TR_KEY_F8
              else if strcmp_buf2 buf CHR ''2'' CHR ''0'' CHR ''~'' then TR_KEY_F9
              else if strcmp_buf2 buf CHR ''2'' CHR ''1'' CHR ''~'' then TR_KEY_F10
              else if strcmp_buf2 buf CHR ''2'' CHR ''3'' CHR ''~'' then TR_KEY_F11
              else if strcmp_buf2 buf CHR ''2'' CHR ''4'' CHR ''~'' then TR_KEY_F12
              else 0
            else 0
          else char_to_int (buf 0)
        else 0
      else 0)"

definition TR_GetKeyPressed :: "'f engine \<Rightarrow> int \<times> 'f engine" where
  "TR_GetKeyPressed s = (tr_key_buffer s, s\<lparr>tr_key_buffer := 0\<rparr>)"

definition TR_IsKeyDown :: "int \<Rightarrow> 'f engine \<Rightarrow> bool" where
  "TR_IsKeyDown key s \<longleftrightarrow> tr_key_buffer s = key"

definition TR_IsKeyPressed :: "int \<Rightarrow> 'f engine \<Rightarrow> bool" where
  "TR_IsKeyPressed key s \<longleftrightarrow> tr_key_buffer s = key"

subsection \<open>Window and frame\<close>

definition tr_get_screen_width_platform :: "'f terminal \<Rightarrow> int" where
  "tr_get_screen_width_platform env = (if ioctl_ok env then int (ws_col env) else 0)"

definition tr_get_screen_height_platform :: "'f terminal \<Rightarrow> int" where
  "tr_get_screen_height_platform env = (if ioctl_ok env then int (ws_row env) else 0)"

definition TR_GetScreenWidth :: "'f terminal \<Rightarrow> int" where
  "TR_GetScreenWidth env = tr_get_screen_width_platform env"

definition TR_GetScreenHeight :: "'f terminal \<Rightarrow> int" where
  "TR_GetScreenHeight env = tr_get_screen_height_platform env"

text \<open>
  Opening the window. Raw mode and the signal handler are changes of the operating
  system's state and are not part of the record. The two cell arrays are allocated with
  \<open>width * height\<close> cells and every cell is initialised by the loop of the source; the
  depth buffer is allocated with as many floats and left as \<^verbatim>\<open>malloc\<close> returned it.
\<close>

definition TR_InitWindow ::
    "int \<Rightarrow> int \<Rightarrow> string \<Rightarrow> 'f terminal \<Rightarrow> 'f engine \<Rightarrow> tr_error + 'f engine \<times> backend_call list" where
  "TR_InitWindow width height title env s =
     (if tr_window_open s then Inr (s, [])
      else
        let bw = TR_GetScreenWidth env; bh = TR_GetScreenHeight env in
        if bw = 0 \<or> bh = 0 then Inl ExitFailure
        else if \<not> malloc_ok env then Inl ExitFailure
        else Inr
          (s\<lparr>tr_buffer_width := bw, tr_buffer_height := bh,
             tr_initial_width := bw, tr_initial_height := bh,
             tr_screen_buffer := replicate (nat (bw * bh)) (mk_cell CHR '' '' BLACK BLACK),
             tr_prev_screen_buffer := replicate (nat (bw * bh)) (mk_cell CHR '' '' BLACK BLACK),
             tr_z_buffer_size := bw * bh,
             tr_z_buffer := map (fresh_float env) [0..<nat (bw * bh)],
             tr_current_bg_color := BLACK,
             tr_window_open := True, tr_frame_time_us := 0, tr_key_buffer := 0\<rparr>,
           [SetConsoleTitle title, SetCursorVisibility False, ClearScreenDirect BLACK,
            FlushStdout]))"

definition TR_BeginDrawing :: "'f terminal \<Rightarrow> 'f engine \<Rightarrow> tr_error + 'f engine" where
  "TR_BeginDrawing env s =
     (if \<not> tr_window_open s then Inr s
      else
        let current_width = TR_GetScreenWidth env; current_height = TR_GetScreenHeight env in
        if current_width \<noteq> tr_initial_width s \<or> current_height \<noteq> tr_initial_height s
        then Inl ExitFailure
        else
          let s1 = s\<lparr>tr_key_buffer := tr_get_key_nonblocking env\<rparr> in
          for_loop 0 (tr_buffer_width s1 * tr_buffer_height s1)
            (\<lambda>i. write_cell i
               (mk_cell CHR '' '' (tr_current_bg_color s1) (tr_current_bg_color s1))) s1)"

definition cell_changed :: "TR_Cell \<Rightarrow> TR_Cell \<Rightarrow> bool" where
  "cell_changed current_cell prev_cell \<longleftrightarrow>
     character current_cell \<noteq> character prev_cell \<or>
     \<not> tr_colors_equal (fg_color current_cell) (fg_color prev_cell) \<or>
     \<not> tr_colors_equal (bg_color current_cell) (bg_color prev_cell)"

text \<open>The body of the two nested loops of the flush; the state is the output so far.\<close>

definition flush_cell :: "'f engine \<Rightarrow> int \<Rightarrow> int \<Rightarrow> backend_call list \<Rightarrow> tr_error + backend_call list" where
  "flush_cell s y x out =
     (let index = y * tr_buffer_width s + x in
      case read_cell (tr_screen_buffer s) index of
        Inl e \<Rightarrow> Inl e
      | Inr current_cell \<Rightarrow>
          (case read_cell (tr_prev_screen_buffer s) index of
             Inl e \<Rightarrow> Inl e
           | Inr prev_cell \<Rightarrow>
               if cell_changed current_cell prev_cell
               then Inr (out @ [SetCursorPosition x y,
                                SetTerminalColor (fg_color current_cell) (bg_color current_cell),
                                PutChar (character current_cell)])
               else Inr out))"

text \<open>
  The flush. The sleep that fills the frame period afterwards changes no variable of
  the engine and is not modelled.
\<close>

definition TR_EndDrawing :: "'f engine \<Rightarrow> tr_error + 'f engine \<times> backend_call list" where
  "TR_EndDrawing s =
     (if \<not> tr_window_open s then Inr (s, [])
      else
        case for_loop 0 (tr_buffer_height s)
               (\<lambda>y. for_loop 0 (tr_buffer_width s) (flush_cell s y)) [] of
          Inl e \<Rightarrow> Inl e
        | Inr out \<Rightarrow>
            (case memcpy_cells (tr_prev_screen_buffer s) (tr_screen_buffer s)
                    (tr_buffer_width s * tr_buffer_height s) of
               Inl e \<Rightarrow> Inl e
             | Inr prev' \<Rightarrow> Inr (s\<lparr>tr_prev_screen_buffer := prev'\<rparr>, out @ [FlushStdout])))"

subsection \<open>2D primitives\<close>

definition TR_DrawPixel :: "int \<Rightarrow> int \<Rightarrow> Color \<Rightarrow> 'f engine \<Rightarrow> tr_error + 'f engine" where
  "TR_DrawPixel x y color s =
     (if \<not> tr_window_open s \<or> x < 0 \<or> x \<ge> tr_buffer_width s \<or> y < 0 \<or> y \<ge> tr_buffer_height s
      then Inr s
      else write_cell (y * tr_buffer_width s + x) (mk_cell CHR '' '' color color) s)"

text \<open>
  The background a primitive writes: the sentinel \<open>BLANK\<close>, compared with
  \<open>tr_colors_equal\<close>, stands for the color of the last clear.
\<close>

definition final_bg_color :: "Color \<Rightarrow> 'f engine \<Rightarrow> Color" where
  "final_bg_color bg s = (if tr_colors_equal bg BLANK then tr_current_bg_color s else bg)"

text \<open>
  The text is the characters before the terminating zero byte, \<open>None\<close> a null pointer.
\<close>

definition TR_DrawText ::
    "string option \<Rightarrow> int \<Rightarrow> int \<Rightarrow> int \<Rightarrow> Color \<Rightarrow> Color \<Rightarrow> 'f engine \<Rightarrow> tr_error + 'f engine" where
  "TR_DrawText text x y fontSize fg bg s =
     (case text of
        None \<Rightarrow> Inr s
      | Some txt \<Rightarrow>
          if \<not> tr_window_open s \<or> y < 0 \<or> y \<ge> tr_buffer_height s then Inr s
          else
            for_loop 0 (int (length txt))
              (\<lambda>i st.
                 let current_x = x + i in
                 if current_x \<ge> 0 \<and> current_x < tr_buffer_width st
                 then write_cell (y * tr_buffer_width st + current_x)
                        (mk_cell (txt ! nat i) fg (final_bg_color bg s)) st
                 else Inr st) s)"

definition TR_DrawRectangle ::
    "int \<Rightarrow> int \<Rightarrow> int \<Rightarrow> int \<Rightarrow> Color \<Rightarrow> Color \<Rightarrow> 'f engine \<Rightarrow> tr_error + 'f engine" where
  "TR_DrawRectangle x y width height fg bg s =
     (if \<not> tr_window_open s then Inr s
      else
        for_loop 0 height
          (\<lambda>j. for_loop 0 width
             (\<lambda>i st.
                let current_x = x + i; current_y = y + j in
                if current_x \<ge> 0 \<and> current_x < tr_buffer_width st \<and>
                   current_y \<ge> 0 \<and> current_y < tr_buffer_height st
                then write_cell (current_y * tr_buffer_width st + current_x)
                       (mk_cell CHR '' '' fg (final_bg_color bg s)) st
                else Inr st)) s)"

text \<open>One guarded store of the outline: the cell \<open>(cx, cy)\<close> gets the glyph \<open>#\<close>.\<close>

definition border_cell :: "int \<Rightarrow> int \<Rightarrow> Color \<Rightarrow> Color \<Rightarrow> 'f engine \<Rightarrow> tr_error + 'f engine" where
  "border_cell cx cy fg final_bg st =
     (if cx \<ge> 0 \<and> cx < tr_buffer_width st \<and> cy \<ge> 0 \<and> cy < tr_buffer_height st
      then write_cell (cy * tr_buffer_width st + cx) (mk_cell CHR ''#'' fg final_bg) st
      else Inr st)"

text \<open>
  The outline. \<^verbatim>\<open>y + height - 1\<close>, \<^verbatim>\<open>x + width - 1\<close> and \<^verbatim>\<open>height - 1\<close> are
  computed in \<^verbatim>\<open>int\<close>, and so are \<^verbatim>\<open>x + i\<close> and \<^verbatim>\<open>y + j\<close>.
\<close>

definition TR_DrawRectangleLines ::
    "int \<Rightarrow> int \<Rightarrow> int \<Rightarrow> int \<Rightarrow> Color \<Rightarrow> Color \<Rightarrow> 'f engine \<Rightarrow> tr_error + 'f engine" where
  "TR_DrawRectangleLines x y width height fg bg s =
     (if \<not> tr_window_open s then Inr s
      else
        case for_loop 0 width
               (\<lambda>i st.
                  case border_cell (int_wrap (x + i)) y fg (final_bg_color bg s) st of
                    Inl e \<Rightarrow> Inl e
                  | Inr st' \<Rightarrow>
                      border_cell (int_wrap (x + i)) (int_wrap (int_wrap (y + height) - 1))
                        fg (final_bg_color bg s) st') s of
          Inl e \<Rightarrow> Inl e
        | Inr s1 \<Rightarrow>
            for_loop 1 (int_wrap (height - 1))
              (\<lambda>j st.
                 case border_cell x (int_wrap (y + j)) fg (final_bg_color bg s) st of
                   Inl e \<Rightarrow> Inl e
                 | Inr st' \<Rightarrow>
                     border_cell (int_wrap (int_wrap (x + width) - 1)) (int_wrap (y + j))
                       fg (final_bg_color bg s) st') s1)"

subsection \<open>3D math\<close>

record 'f TR_Vector3 =
  vec_x :: 'f
  vec_y :: 'f
  vec_z :: 'f

text \<open>
  \<^verbatim>\<open>float m[4][4]\<close>: four rows of four entries, \<open>mat_m mat i j\<close> for \<^verbatim>\<open>mat.m[i][j]\<close>.
\<close>

type_synonym 'f TR_Matrix4x4 = "'f list list"

definition mat_m :: "'f TR_Matrix4x4 \<Rightarrow> nat \<Rightarrow> nat \<Rightarrow> 'f" where
  "mat_m mat i j = mat ! i ! j"

definition mat_set :: "'f TR_Matrix4x4 \<Rightarrow> nat \<Rightarrow> nat \<Rightarrow> 'f \<Rightarrow> 'f TR_Matrix4x4" where
  "mat_set mat i j v = mat[i := (mat ! i)[j := v]]"

text \<open>
  The matrix constructors and the matrix product, with the floats they hold taken as
  the reals they denote: the properties stated of them below involve only products with
  0 and 1, sums with 0, and the cosine and sine of 0, which binary floating point computes
  exactly for finite entries.
\<close>

definition mat_zero :: "real TR_Matrix4x4" where
  "mat_zero = replicate 4 (replicate 4 0)"

definition matrix_ok :: "real TR_Matrix4x4 \<Rightarrow> bool" where
  "matrix_ok mat \<longleftrightarrow> length mat = 4 \<and> list_all (\<lambda>row. length row = 4) mat"

definition TR_MatrixIdentity :: "real TR_Matrix4x4" where
  "TR_MatrixIdentity = mat_set (mat_set (mat_set (mat_set mat_zero 0 0 1) 1 1 1) 2 2 1) 3 3 1"

definition TR_MatrixMultiply :: "real TR_Matrix4x4 \<Rightarrow> real TR_Matrix4x4 \<Rightarrow> real TR_Matrix4x4" where
  "TR_MatrixMultiply mat1 mat2 =
     fold (\<lambda>i. fold (\<lambda>j. fold (\<lambda>k result.
             mat_set result i j (mat_m result i j + mat_m mat1 i k * mat_m mat2 k j))
           [0..<4]) [0..<4]) [0..<4] mat_zero"

definition TR_MatrixRotateX :: "real \<Rightarrow> real TR_Matrix4x4" where
  "TR_MatrixRotateX angle =
     (let mat = TR_MatrixIdentity; c = cos angle; s = sin angle in
      mat_set (mat_set (mat_set (mat_set mat 1 1 c) 1 2 s) 2 1 (- s)) 2 2 c)"

text \<open>
  A division in the transform: dividing by a float that compares equal to \<^verbatim>\<open>0.0f\<close>
  is the error \<open>DivisionByZero\<close>.
\<close>

definition fdiv :: "'f float_ops \<Rightarrow> 'f \<Rightarrow> 'f \<Rightarrow> tr_error + 'f" where
  "fdiv ops p q =
     (if f_eq ops q (f_zero ops) then Inl DivisionByZero else Inr (f_div ops p q))"

text \<open>
  The four sums are evaluated from left to right, as C evaluates
  \<^verbatim>\<open>v.x * m[0][j] + v.y * m[1][j] + v.z * m[2][j] + 1.0f * m[3][j]\<close>, and every product and
  every sum is one operation of the platform, with its rounding.
\<close>

definition TR_Vector3Transform ::
    "'f float_ops \<Rightarrow> 'f TR_Vector3 \<Rightarrow> 'f TR_Matrix4x4 \<Rightarrow> tr_error + 'f TR_Vector3" where
  "TR_Vector3Transform ops v mat =
     (let x = f_add ops (f_add ops (f_add ops (f_mul ops (vec_x v) (mat_m mat 0 0))
                                             (f_mul ops (vec_y v) (mat_m mat 1 0)))
                                  (f_mul ops (vec_z v) (mat_m mat 2 0)))
                       (f_mul ops (f_one ops) (mat_m mat 3 0));
          y = f_add ops (f_add ops (f_add ops (f_mul ops (vec_x v) (mat_m mat 0 1))
                                             (f_mul ops (vec_y v) (mat_m mat 1 1)))
                                  (f_mul ops (vec_z v) (mat_m mat 2 1)))
                       (f_mul ops (f_one ops) (mat_m mat 3 1));
          z = f_add ops (f_add ops (f_add ops (f_mul ops (vec_x v) (mat_m mat 0 2))
                                             (f_mul ops (vec_y v) (mat_m mat 1 2)))
                                  (f_mul ops (vec_z v) (mat_m mat 2 2)))
                       (f_mul ops (f_one ops) (mat_m mat 3 2));
          w = f_add ops (f_add ops (f_add ops (f_mul ops (vec_x v) (mat_m mat 0 3))
                                             (f_mul ops (vec_y v) (mat_m mat 1 3)))
                                  (f_mul ops (vec_z v) (mat_m mat 2 3)))
                       (f_mul ops (f_one ops) (mat_m mat 3 3))
      in if \<not> f_eq ops w (f_zero ops) then
           (case fdiv ops x w of
              Inl e \<Rightarrow> Inl e
            | Inr rx \<Rightarrow>
                (case fdiv ops y w of
                   Inl e \<Rightarrow> Inl e
                 | Inr ry \<Rightarrow>
                     (case fdiv ops z w of
                        Inl e \<Rightarrow> Inl e
                      | Inr rz \<Rightarrow> Inr \<lparr>vec_x = rx, vec_y = ry, vec_z = rz\<rparr>)))
         else Inr \<lparr>vec_x = x, vec_y = y, vec_z = z\<rparr>)"

subsection \<open>Filled triangles\<close>

definition tr_project_vertex ::
    "'f float_ops \<Rightarrow> 'f TR_Vector3 \<Rightarrow> 'f TR_Matrix4x4 \<Rightarrow> 'f engine \<Rightarrow> tr_error + 'f TR_Vector3" where
  "tr_project_vertex ops vertex mvp_matrix s =
     (case TR_Vector3Transform ops vertex mvp_matrix of
        Inl e \<Rightarrow> Inl e
      | Inr transformed_v \<Rightarrow>
          Inr \<lparr>vec_x = f_mul ops (f_mul ops (f_add ops (vec_x transformed_v) (f_one ops)) (f_half ops))
                         (f_of_int ops (tr_buffer_width s)),
               vec_y = f_mul ops (f_mul ops (f_sub ops (f_one ops) (vec_y transformed_v)) (f_half ops))
                         (f_of_int ops (tr_buffer_height s)),
               vec_z = vec_z transformed_v\<rparr>)"

text \<open>The three conditional swaps that order \<open>p[0], p[1], p[2]\<close> by their row.\<close>

definition sort_by_y :: "'f float_ops \<Rightarrow> 'f TR_Vector3 list \<Rightarrow> 'f TR_Vector3 list" where
  "sort_by_y ops p =
     (let p1 = (if f_lt ops (vec_y (p ! 1)) (vec_y (p ! 0)) then [p ! 1, p ! 0, p ! 2] else p);
          p2 = (if f_lt ops (vec_y (p1 ! 2)) (vec_y (p1 ! 0)) then [p1 ! 2, p1 ! 1, p1 ! 0] else p1);
          p3 = (if f_lt ops (vec_y (p2 ! 2)) (vec_y (p2 ! 1)) then [p2 ! 0, p2 ! 2, p2 ! 1] else p2)
      in p3)"

text \<open>The first and the last row of the scan, clamped to the buffer.\<close>

definition scan_rows :: "'f float_ops \<Rightarrow> int \<Rightarrow> 'f TR_Vector3 list \<Rightarrow> int \<times> int" where
  "scan_rows ops buffer_height p =
     (let y_start = f_to_int ops (vec_y (p ! 0)); y_end = f_to_int ops (vec_y (p ! 2));
          y_start = (if y_start < 0 then 0 else y_start);
          y_end = (if y_end \<ge> buffer_height then buffer_height - 1 else y_end)
      in (y_start, y_end))"

record 'f scan_span =
  x_left :: 'f
  x_right :: 'f
  z_left :: 'f
  z_right :: 'f

text \<open>
  One edge of the search for the intersections of a row; \<^verbatim>\<open>continue\<close> leaves the span
  as it is.
\<close>

definition edge_step ::
    "'f float_ops \<Rightarrow> 'f TR_Vector3 list \<Rightarrow> int \<Rightarrow> nat \<Rightarrow> 'f scan_span \<Rightarrow> 'f scan_span" where
  "edge_step ops p y i sp =
     (let p_curr = p ! i; p_next = p ! ((i + 1) mod 3) in
      if (y \<ge> f_to_int ops (vec_y p_curr) \<and> y < f_to_int ops (vec_y p_next)) \<or>
         (y \<ge> f_to_int ops (vec_y p_next) \<and> y < f_to_int ops (vec_y p_curr))
      then
        if f_eq ops (vec_y p_curr) (vec_y p_next) then sp
        else
          let t = f_div ops (f_sub ops (f_of_int ops y) (vec_y p_curr))
                            (f_sub ops (vec_y p_next) (vec_y p_curr));
              intersect_x = f_add ops (vec_x p_curr)
                              (f_mul ops t (f_sub ops (vec_x p_next) (vec_x p_curr)));
              intersect_z = f_add ops (vec_z p_curr)
                              (f_mul ops t (f_sub ops (vec_z p_next) (vec_z p_curr)));
              sp1 = (if f_lt ops intersect_x (x_left sp)
                     then sp\<lparr>x_left := intersect_x, z_left := intersect_z\<rparr> else sp);
              sp2 = (if f_lt ops (x_right sp1) intersect_x
                     then sp1\<lparr>x_right := intersect_x, z_right := intersect_z\<rparr> else sp1)
          in sp2
      else sp)"

definition scan_edges :: "'f float_ops \<Rightarrow> int \<Rightarrow> 'f TR_Vector3 list \<Rightarrow> int \<Rightarrow> 'f scan_span" where
  "scan_edges ops buffer_width p y =
     fold (edge_step ops p y) [0..<3]
       \<lparr>x_left = f_of_int ops buffer_width, x_right = f_zero ops,
        z_left = f_one ops, z_right = f_zero ops\<rparr>"

text \<open>The first and the last column of the span of a row, clamped to the buffer.\<close>

definition scan_columns :: "'f float_ops \<Rightarrow> int \<Rightarrow> 'f scan_span \<Rightarrow> int \<times> int" where
  "scan_columns ops buffer_width sp =
     (let x_start = f_to_int ops (x_left sp); x_end = f_to_int ops (x_right sp);
          x_start = (if x_start < 0 then 0 else x_start);
          x_end = (if x_end \<ge> buffer_width then buffer_width - 1 else x_end)
      in (x_start, x_end))"

text \<open>The depth interpolated at column \<open>x\<close> of a span.\<close>

definition pixel_depth :: "'f float_ops \<Rightarrow> int \<Rightarrow> int \<Rightarrow> 'f scan_span \<Rightarrow> int \<Rightarrow> 'f" where
  "pixel_depth ops x_start x_end sp x =
     (if x_end \<noteq> x_start
      then f_add ops (z_left sp)
             (f_mul ops (f_div ops (f_of_int ops (x - x_start)) (f_of_int ops (x_end - x_start)))
                        (f_sub ops (z_right sp) (z_left sp)))
      else z_left sp)"

text \<open>The body of the loop over the columns of a row: the depth test and the pixel.\<close>

definition depth_test_pixel ::
    "'f float_ops \<Rightarrow> int \<Rightarrow> int \<Rightarrow> 'f \<Rightarrow> Color \<Rightarrow> 'f engine \<Rightarrow> tr_error + 'f engine" where
  "depth_test_pixel ops x y pixel_z color s =
     (let index = y * tr_buffer_width s + x in
      if index \<ge> 0 \<and> index < tr_z_buffer_size s then
        if index < int (length (tr_z_buffer s)) then
          if f_lt ops pixel_z (tr_z_buffer s ! nat index)
          then TR_DrawPixel x y color (s\<lparr>tr_z_buffer := (tr_z_buffer s)[nat index := pixel_z]\<rparr>)
          else Inr s
        else Inl InvalidAccess
      else Inr s)"

text \<open>The scan over the rows and columns of the projected, ordered triangle \<open>p\<close>.\<close>

definition fill_triangle ::
    "'f float_ops \<Rightarrow> 'f TR_Vector3 list \<Rightarrow> Color \<Rightarrow> 'f engine \<Rightarrow> tr_error + 'f engine" where
  "fill_triangle ops p color s =
     for_loop (fst (scan_rows ops (tr_buffer_height s) p))
       (snd (scan_rows ops (tr_buffer_height s) p) + 1)
       (\<lambda>y st.
          let sp = scan_edges ops (tr_buffer_width st) p y;
              x_start = fst (scan_columns ops (tr_buffer_width st) sp);
              x_end = snd (scan_columns ops (tr_buffer_width st) sp)
          in for_loop x_start (x_end + 1)
               (\<lambda>x. depth_test_pixel ops x y (pixel_depth ops x_start x_end sp x) color) st) s"

definition TR_DrawTriangle3DFilled ::
    "'f float_ops \<Rightarrow> 'f TR_Vector3 \<Rightarrow> 'f TR_Vector3 \<Rightarrow> 'f TR_Vector3 \<Rightarrow> 'f TR_Matrix4x4 \<Rightarrow> Color
       \<Rightarrow> 'f engine \<Rightarrow> tr_error + 'f engine" where
  "TR_DrawTriangle3DFilled ops v1 v2 v3 mvp_matrix color s =
     (case tr_project_vertex ops v1 mvp_matrix s of
        Inl e \<Rightarrow> Inl e
      | Inr q0 \<Rightarrow>
          (case tr_project_vertex ops v2 mvp_matrix s of
             Inl e \<Rightarrow> Inl e
           | Inr q1 \<Rightarrow>
               (case tr_project_vertex ops v3 mvp_matrix s of
                  Inl e \<Rightarrow> Inl e
                | Inr q2 \<Rightarrow> fill_triangle ops (sort_by_y ops [q0, q1, q2]) color s)))"

subsection \<open>Notions used to state the properties\<close>

definition in_bounds :: "'f engine \<Rightarrow> int \<Rightarrow> int \<Rightarrow> bool" where
  "in_bounds s cx cy \<longleftrightarrow>
     0 \<le> cx \<and> cx < tr_buffer_width s \<and> 0 \<le> cy \<and> cy < tr_buffer_height s"

definition cell_index :: "'f engine \<Rightarrow> int \<Rightarrow> int \<Rightarrow> nat" where
  "cell_index s cx cy = nat (cy * tr_buffer_width s + cx)"

text \<open>
  An open session as \<open>TR_InitWindow\<close> leaves it and every operation keeps it: both cell
  arrays hold \<open>width * height\<close> cells.
\<close>

definition engine_ok :: "'f engine \<Rightarrow> bool" where
  "engine_ok s \<longleftrightarrow>
     tr_window_open s \<and> 0 \<le> tr_buffer_width s \<and> 0 \<le> tr_buffer_height s \<and>
     int (length (tr_screen_buffer s)) = tr_buffer_width s * tr_buffer_height s \<and>
     int (length (tr_prev_screen_buffer s)) = tr_buffer_width s * tr_buffer_height s"

text \<open>The screen buffer with the cell \<open>c\<close> at every position that satisfies \<open>P\<close>.\<close>

definition painted :: "(int \<Rightarrow> int \<Rightarrow> bool) \<Rightarrow> TR_Cell \<Rightarrow> 'f engine \<Rightarrow> 'f engine" where
  "painted P c s =
     s\<lparr>tr_screen_buffer :=
         map (\<lambda>k. if P (int k mod tr_buffer_width s) (int k div tr_buffer_width s) then c
                  else tr_screen_buffer s ! k)
           [0..<length (tr_screen_buffer s)]\<rparr>"

text \<open>The positions of the buffer in the order of the flush: row by row, left to right.\<close>

definition row_major :: "'f engine \<Rightarrow> (int \<times> int) list" where
  "row_major s =
     concat (map (\<lambda>y. map (\<lambda>x. (x, y)) [0..tr_buffer_width s - 1]) [0..tr_buffer_height s - 1])"

definition changed_at :: "'f engine \<Rightarrow> int \<times> int \<Rightarrow> bool" where
  "changed_at s p \<longleftrightarrow>
     cell_changed (tr_screen_buffer s ! cell_index s (fst p) (snd p))
                  (tr_prev_screen_buffer s ! cell_index s (fst p) (snd p))"

definition cell_writes :: "'f engine \<Rightarrow> int \<times> int \<Rightarrow> backend_call list" where
  "cell_writes s p =
     (let c = tr_screen_buffer s ! cell_index s (fst p) (snd p) in
      [SetCursorPosition (fst p) (snd p), SetTerminalColor (fg_color c) (bg_color c),
       PutChar (character c)])"

text \<open>A session of two columns and two rows, every cell blank on black, the key \<open>q\<close> held.\<close>

definition demo_engine :: "real engine" where
  "demo_engine =
     \<lparr>tr_window_open = True, tr_frame_time_us = 0, tr_key_buffer = 113,
      tr_screen_buffer = replicate 4 (mk_cell CHR '' '' BLACK BLACK),
      tr_prev_screen_buffer = replicate 4 (mk_cell CHR '' '' BLACK BLACK),
      tr_buffer_width = 2, tr_buffer_height = 2,
      tr_current_bg_color = BLACK, tr_initial_width = 2, tr_initial_height = 2,
      tr_z_buffer = replicate 4 1, tr_z_buffer_size = 4\<rparr>"

text \<open>A terminal of two columns and two rows with no key pending.\<close>

definition demo_terminal :: "real terminal" where
  "demo_terminal =
     \<lparr>ioctl_ok = True, ws_col = 2, ws_row = 2, select_result = 0, bytes_read = 0,
      key_buf = (\<lambda>_. CHR 0x00), malloc_ok = True, fresh_float = (\<lambda>_. 0)\<rparr>"

text \<open>
  Exact arithmetic as an instance of the float operations: the operations on the reals,
  and the conversion to \<^verbatim>\<open>int\<close> that truncates towards zero and gives the least
  \<^verbatim>\<open>int\<close> outside the range, as the conversion instruction of x86 does.
  Binary floating point agrees with it wherever every operand and result is a float.
\<close>

definition trunc_to_int :: "real \<Rightarrow> int" where
  "trunc_to_int f =
     (let t = (if 0 \<le> f then \<lfloor>f\<rfloor> else \<lceil>f\<rceil>) in
      if - 2147483648 \<le> t \<and> t < 2147483648 then t else - 2147483648)"

definition exact_ops :: "real float_ops" where
  "exact_ops =
     \<lparr>f_add = (\<lambda>p q. p + q), f_sub = (\<lambda>p q. p - q), f_mul = (\<lambda>p q. p * q),
      f_div = (\<lambda>p q. p / q), f_lt = (\<lambda>p q. p < q), f_eq = (\<lambda>p q. p = q),
      f_of_int = real_of_int, f_to_int = trunc_to_int,
      f_zero = 0, f_half = 1 / 2, f_one = 1\<rparr>"

text \<open>
  What the depth test needs of \<^verbatim>\<open><\<close> on floats, and what IEEE 754 gives it, NaN
  included: it is asymmetric and transitive.
\<close>

definition lt_strict :: "'f float_ops \<Rightarrow> bool" where
  "lt_strict ops \<longleftrightarrow>
     (\<forall>p q. f_lt ops p q \<longrightarrow> \<not> f_lt ops q p) \<and>
     (\<forall>p q r. f_lt ops p q \<and> f_lt ops q r \<longrightarrow> f_lt ops p r)"

text \<open>
  The homogeneous product \<open>(v.x, v.y, v.z, 1) \<cdot> M\<close> of the row vector of a vertex and
  a matrix, in float arithmetic: its component \<open>j\<close> is the sum, from left to right, of
  the four products.
\<close>

definition homogeneous_product :: "'f float_ops \<Rightarrow> 'f TR_Vector3 \<Rightarrow> 'f TR_Matrix4x4 \<Rightarrow> nat \<Rightarrow> 'f" where
  "homogeneous_product ops v mat j =
     foldl (f_add ops)
       (f_mul ops ([vec_x v, vec_y v, vec_z v, f_one ops] ! 0) (mat_m mat 0 j))
       (map (\<lambda>k. f_mul ops ([vec_x v, vec_y v, vec_z v, f_one ops] ! k) (mat_m mat k j)) [1..<4])"

text \<open>The transform as the specification words it: the divide is skipped when \<open>w\<close> is zero.\<close>

definition transform_spec :: "'f float_ops \<Rightarrow> 'f TR_Vector3 \<Rightarrow> 'f TR_Matrix4x4 \<Rightarrow> 'f TR_Vector3" where
  "transform_spec ops v mat =
     (let x = homogeneous_product ops v mat 0; y = homogeneous_product ops v mat 1;
          z = homogeneous_product ops v mat 2; w = homogeneous_product ops v mat 3
      in if f_eq ops w (f_zero ops) then \<lparr>vec_x = x, vec_y = y, vec_z = z\<rparr>
         else \<lparr>vec_x = f_div ops x w, vec_y = f_div ops y w, vec_z = f_div ops z w\<rparr>)"

text \<open>The three vertices of a triangle on the screen, ordered by row, as the fill uses them.\<close>

definition screen_vertex ::
    "'f float_ops \<Rightarrow> 'f TR_Vector3 \<Rightarrow> 'f TR_Matrix4x4 \<Rightarrow> 'f engine \<Rightarrow> 'f TR_Vector3" where
  "screen_vertex ops vertex mvp_matrix s =
     \<lparr>vec_x = f_mul ops (f_mul ops (f_add ops (vec_x (transform_spec ops vertex mvp_matrix)) (f_one ops))
                                  (f_half ops))
                (f_of_int ops (tr_buffer_width s)),
      vec_y = f_mul ops (f_mul ops (f_sub ops (f_one ops) (vec_y (transform_spec ops vertex mvp_matrix)))
                                  (f_half ops))
                (f_of_int ops (tr_buffer_height s)),
      vec_z = vec_z (transform_spec ops vertex mvp_matrix)\<rparr>"

definition screen_triangle ::
    "'f float_ops \<Rightarrow> 'f TR_Vector3 \<Rightarrow> 'f TR_Vector3 \<Rightarrow> 'f TR_Vector3 \<Rightarrow> 'f TR_Matrix4x4 \<Rightarrow> 'f engine
       \<Rightarrow> 'f TR_Vector3 list" where
  "screen_triangle ops v1 v2 v3 mvp_matrix s =
     sort_by_y ops [screen_vertex ops v1 mvp_matrix s, screen_vertex ops v2 mvp_matrix s,
                    screen_vertex ops v3 mvp_matrix s]"

text \<open>
  The pixels that the fill of the ordered screen triangle \<open>p\<close> visits, and the depth it
  interpolates at each of them.
\<close>

definition covers :: "'f float_ops \<Rightarrow> 'f engine \<Rightarrow> 'f TR_Vector3 list \<Rightarrow> int \<Rightarrow> int \<Rightarrow> bool" where
  "covers ops s p x y \<longleftrightarrow>
     fst (scan_rows ops (tr_buffer_height s) p) \<le> y \<and>
     y \<le> snd (scan_rows ops (tr_buffer_height s) p) \<and>
     fst (scan_columns ops (tr_buffer_width s) (scan_edges ops (tr_buffer_width s) p y)) \<le> x \<and>
     x \<le> snd (scan_columns ops (tr_buffer_width s) (scan_edges ops (tr_buffer_width s) p y))"

definition depth_at :: "'f float_ops \<Rightarrow> 'f engine \<Rightarrow> 'f TR_Vector3 list \<Rightarrow> int \<Rightarrow> int \<Rightarrow> 'f" where
  "depth_at ops s p x y =
     pixel_depth ops
       (fst (scan_columns ops (tr_buffer_width s) (scan_edges ops (tr_buffer_width s) p y)))
       (snd (scan_columns ops (tr_buffer_width s) (scan_edges ops (tr_buffer_width s) p y)))
       (scan_edges ops (tr_buffer_width s) p y) x"

text \<open>An open session with a depth buffer of \<open>width * height\<close> floats.\<close>

definition depth_ok :: "'f engine \<Rightarrow> bool" where
  "depth_ok s \<longleftrightarrow>
     engine_ok s \<and> tr_z_buffer_size s = tr_buffer_width s * tr_buffer_height s \<and>
     int (length (tr_z_buffer s)) = tr_buffer_width s * tr_buffer_height s"

text \<open>
  The engine after the depth test at every position that satisfies \<open>P\<close>: where the
  depth of \<open>p\<close> is less than the stored one, the depth is stored and the pixel drawn.
\<close>

definition depth_painted ::
    "'f float_ops \<Rightarrow> (int \<Rightarrow> int \<Rightarrow> bool) \<Rightarrow> 'f TR_Vector3 list \<Rightarrow> Color \<Rightarrow> 'f engine \<Rightarrow> 'f engine" where
  "depth_painted ops P p color s =
     s\<lparr>tr_z_buffer :=
         map (\<lambda>k. if P (int k mod tr_buffer_width s) (int k div tr_buffer_width s) \<and>
                     f_lt ops (depth_at ops s p (int k mod tr_buffer_width s) (int k div tr_buffer_width s))
                       (tr_z_buffer s ! k)
                  then depth_at ops s p (int k mod tr_buffer_width s) (int k div tr_buffer_width s)
                  else tr_z_buffer s ! k)
           [0..<length (tr_z_buffer s)],
       tr_screen_buffer :=
         map (\<lambda>k. if P (int k mod tr_buffer_width s) (int k div tr_buffer_width s) \<and>
                     f_lt ops (depth_at ops s p (int k mod tr_buffer_width s) (int k div tr_buffer_width s))
                       (tr_z_buffer s ! k)
                  then mk_cell CHR '' '' color color
                  else tr_screen_buffer s ! k)
           [0..<length (tr_screen_buffer s)]\<rparr>"

definition vec3 :: "'f \<Rightarrow> 'f \<Rightarrow> 'f \<Rightarrow> 'f TR_Vector3" where
  "vec3 px py pz = \<lparr>vec_x = px, vec_y = py, vec_z = pz\<rparr>"

text \<open>One call after another: the second runs on the engine the first returns.\<close>

definition and_then ::
    "tr_error + 'f engine \<Rightarrow> ('f engine \<Rightarrow> tr_error + 'f engine) \<Rightarrow> tr_error + 'f engine" where
  "and_then r f = (case r of Inl e \<Rightarrow> Inl e | Inr s \<Rightarrow> f s)"

text \<open>
  The triangle with the corners \<open>(-1, 1)\<close>, \<open>(-1, -1)\<close> and \<open>(1, -1)\<close> at the depth \<open>z\<close>,
  drawn with the identity matrix. Its coordinates, and every value the transform and
  the fill compute from them on the demo session, are halves of small integers, so
  exact arithmetic computes what binary floating point computes.
\<close>

definition draw_demo_triangle :: "real \<Rightarrow> Color \<Rightarrow> real engine \<Rightarrow> tr_error + real engine" where
  "draw_demo_triangle z color s =
     TR_DrawTriangle3DFilled exact_ops (vec3 (-1) 1 z) (vec3 (-1) (-1) z) (vec3 1 (-1) z)
       TR_MatrixIdentity color s"

definition demo_screen_triangle :: "real \<Rightarrow> real TR_Vector3 list" where
  "demo_screen_triangle z =
     screen_triangle exact_ops (vec3 (-1) 1 z) (vec3 (-1) (-1) z) (vec3 1 (-1) z)
       TR_MatrixIdentity demo_engine"

text \<open>
  The identity with its last diagonal entry replaced: by 0, so that every vertex has
  \<open>w = 0\<close>, and by 2, so that every vertex has \<open>w = 2\<close>.
\<close>

definition flat_matrix :: "real TR_Matrix4x4" where
  "flat_matrix = mat_set TR_MatrixIdentity 3 3 0"

definition halving_matrix :: "real TR_Matrix4x4" where
  "halving_matrix = mat_set TR_MatrixIdentity 3 3 2"

text \<open>The three color channels that the engine compares.\<close>

definition rgb :: "Color \<Rightarrow> 8 word \<times> 8 word \<times> 8 word" where
  "rgb c = (color_r c, color_g c, color_b c)"

text \<open>The demo session with one cell whose foreground differs from the previous frame in alpha only.\<close>

definition alpha_engine :: "real engine" where
  "alpha_engine =
     demo_engine\<lparr>tr_screen_buffer :=
        (tr_screen_buffer demo_engine)[0 := mk_cell CHR '' '' (mk_color 0 0 0 0) BLACK]\<rparr>"

text \<open>The demo session with one red pixel drawn since the previous frame.\<close>

definition red_engine :: "real engine" where
  "red_engine =
     demo_engine\<lparr>tr_screen_buffer :=
        (tr_screen_buffer demo_engine)[1 := mk_cell CHR '' '' RED RED]\<rparr>"

text \<open>The engine before any window is opened.\<close>

definition closed_engine :: "real engine" where
  "closed_engine =
     \<lparr>tr_window_open = False, tr_frame_time_us = 0, tr_key_buffer = 0,
      tr_screen_buffer = [], tr_prev_screen_buffer = [],
      tr_buffer_width = 0, tr_buffer_height = 0,
      tr_current_bg_color = BLACK, tr_initial_width = 0, tr_initial_height = 0,
      tr_z_buffer = [], tr_z_buffer_size = 0\<rparr>"

section \<open>Properties\<close>

subsection \<open>Loops\<close>

lemma for_loop_done: "n \<le> i \<Longrightarrow> for_loop i n body s = Inr s"
  by (simp add: for_loop.simps)

lemma for_loop_step:
  "i < n \<Longrightarrow> for_loop i n body s =
     (case body i s of Inl e \<Rightarrow> Inl e | Inr s' \<Rightarrow> for_loop (i + 1) n body s')"
  by (subst for_loop.simps) simp

lemma for_loop_skip:
  "(\<And>i. lo \<le> i \<Longrightarrow> i < hi \<Longrightarrow> body i s = Inr s) \<Longrightarrow> for_loop lo hi body s = Inr s"
proof (induction lo hi body s rule: for_loop.induct)
  case (1 i n body s)
  show ?case
  proof (cases "i < n")
    case True
    then have b: "body i s = Inr s" using "1.prems" by simp
    have "for_loop (i + 1) n body s = Inr s"
      using "1.IH" [OF True b] "1.prems" by simp
    then show ?thesis using True b by (simp add: for_loop_step)
  next
    case False
    then show ?thesis by (simp add: for_loop_done)
  qed
qed

lemma for_loop_inv:
  assumes "I lo s"
    and "\<And>i st. lo \<le> i \<Longrightarrow> i < hi \<Longrightarrow> I i st \<Longrightarrow> \<exists>st'. body i st = Inr st' \<and> I (i + 1) st'"
  shows "\<exists>s'. for_loop lo hi body s = Inr s' \<and> I (max lo hi) s'"
  using assms
proof (induction lo hi body s rule: for_loop.induct)
  case (1 i n body s)
  show ?case
  proof (cases "i < n")
    case True
    obtain st' where b: "body i s = Inr st'" and inv: "I (i + 1) st'"
      using "1.prems"(2) [of i s] "1.prems"(1) True by auto
    have "\<exists>s'. for_loop (i + 1) n body st' = Inr s' \<and> I (max (i + 1) n) s'"
      using "1.IH" [OF True b inv] True "1.prems"(2) by simp
    moreover have "max (i + 1) n = max i n" using True by simp
    ultimately show ?thesis using True b by (simp add: for_loop_step)
  next
    case False
    then have "max i n = i" by simp
    then show ?thesis using "1.prems"(1) False by (simp add: for_loop_done)
  qed
qed

lemma for_loop_cong_inv:
  assumes "I s"
    and "\<And>i st. lo \<le> i \<Longrightarrow> i < hi \<Longrightarrow> I st \<Longrightarrow> body1 i st = body2 i st"
    and "\<And>i st st'. lo \<le> i \<Longrightarrow> i < hi \<Longrightarrow> I st \<Longrightarrow> body1 i st = Inr st' \<Longrightarrow> I st'"
  shows "for_loop lo hi body1 s = for_loop lo hi body2 s"
  using assms
proof (induction lo hi body1 s rule: for_loop.induct)
  case (1 i n body1 s)
  show ?case
  proof (cases "i < n")
    case True
    have eq: "body1 i s = body2 i s"
      by (rule "1.prems"(2)) (use True "1.prems"(1) in simp_all)
    show ?thesis
    proof (cases "body1 i s")
      case (Inl e)
      then show ?thesis using True eq [symmetric] by (simp add: for_loop_step)
    next
      case (Inr st')
      have inv: "I st'"
        by (rule "1.prems"(3) [of i s]) (use True "1.prems"(1) Inr in simp_all)
      have "for_loop (i + 1) n body1 st' = for_loop (i + 1) n body2 st'"
      proof (rule "1.IH" [OF True Inr inv])
        fix j st
        assume "i + 1 \<le> j" "j < n" "I st"
        then show "body1 j st = body2 j st"
          by (intro "1.prems"(2)) simp_all
      next
        fix j st st''
        assume "i + 1 \<le> j" "j < n" "I st" "body1 j st = Inr st''"
        then show "I st''"
          by (intro "1.prems"(3) [of j st st'']) simp_all
      qed
      then show ?thesis using True eq [symmetric] Inr by (simp add: for_loop_step)
    qed
  next
    case False
    then show ?thesis by (simp add: for_loop_done)
  qed
qed

lemma for_loop_preserves:
  assumes "for_loop lo hi body s = Inr s'" and "I s"
    and "\<And>i st st'. lo \<le> i \<Longrightarrow> i < hi \<Longrightarrow> I st \<Longrightarrow> body i st = Inr st' \<Longrightarrow> I st'"
  shows "I s'"
  using assms
proof (induction lo hi body s rule: for_loop.induct)
  case (1 i n body s)
  show ?case
  proof (cases "i < n")
    case True
    then obtain st where b: "body i s = Inr st" and rest: "for_loop (i + 1) n body st = Inr s'"
      using "1.prems"(1) by (auto simp: for_loop_step split: sum.splits)
    have inv: "I st"
      by (rule "1.prems"(3) [of i s]) (use True "1.prems"(2) b in simp_all)
    show ?thesis
    proof (rule "1.IH" [OF True b rest inv])
      fix j st st''
      assume "i + 1 \<le> j" "j < n" "I st" "body j st = Inr st''"
      then show "I st''"
        by (intro "1.prems"(3) [of j st st'']) simp_all
    qed
  next
    case False
    then show ?thesis using "1.prems"(1,2) by (simp add: for_loop_done)
  qed
qed

lemma for_loop_append:
  assumes "\<And>i out. lo \<le> i \<Longrightarrow> i < hi \<Longrightarrow> body i out = Inr (out @ f i)"
  shows "for_loop lo hi body out = Inr (out @ concat (map f [lo..hi - 1]))"
  using assms
proof (induction lo hi body out rule: for_loop.induct)
  case (1 i n body out)
  show ?case
  proof (cases "i < n")
    case True
    have b: "body i out = Inr (out @ f i)" using "1.prems" True by simp
    have "for_loop (i + 1) n body (out @ f i) = Inr ((out @ f i) @ concat (map f [i + 1..n - 1]))"
      using "1.IH" [OF True b] "1.prems" by simp
    moreover have "[i..n - 1] = i # [i + 1..n - 1]"
      using True by (simp add: upto_rec1)
    ultimately show ?thesis using True b by (simp add: for_loop_step)
  next
    case False
    then show ?thesis by (simp add: for_loop_done)
  qed
qed

subsection \<open>Cell positions and indices\<close>

lemma index_bound:
  assumes "0 \<le> cx" "cx < w" "0 \<le> cy" "cy < h"
  shows "0 \<le> cy * w + cx \<and> cy * w + cx < w * (h::int)"
proof -
  have "cy + 1 \<le> h" using assms by simp
  then have "(cy + 1) * w \<le> h * w"
    using assms by (intro mult_right_mono) auto
  then have "cy * w + w \<le> w * h" by (simp add: algebra_simps)
  then show ?thesis using assms by auto
qed

lemma position_of_index:
  assumes "int k < w * h" "0 \<le> w" "0 \<le> h"
  shows "0 \<le> int k mod w \<and> int k mod w < w \<and> 0 \<le> int k div w \<and> int k div w < h"
proof -
  have w: "0 < w" using assms by (cases "w = 0") auto
  have "int k = w * (int k div w) + int k mod w" by simp
  moreover have "0 \<le> int k mod w" using w by simp
  ultimately have "w * (int k div w) < w * h" using assms(1) by linarith
  then have "int k div w < h"
    using w by (simp add: mult_less_cancel_left_pos)
  moreover have "0 \<le> int k div w" using w by (simp add: pos_imp_zdiv_nonneg_iff)
  ultimately show ?thesis using w by simp
qed

subsection \<open>Painting the screen buffer\<close>

lemma painted_fields [simp]:
  "tr_window_open (painted P c s) = tr_window_open s"
  "tr_buffer_width (painted P c s) = tr_buffer_width s"
  "tr_buffer_height (painted P c s) = tr_buffer_height s"
  "length (tr_screen_buffer (painted P c s)) = length (tr_screen_buffer s)"
  by (simp_all add: painted_def)

lemma painted_none: "painted (\<lambda>cx cy. False) c s = s"
  by (simp add: painted_def map_nth)

lemma painted_cong:
  assumes "engine_ok s"
    and "\<And>cx cy. in_bounds s cx cy \<Longrightarrow> P cx cy = Q cx cy"
  shows "painted P c s = painted Q c s"
proof -
  have "P (int k mod tr_buffer_width s) (int k div tr_buffer_width s) =
        Q (int k mod tr_buffer_width s) (int k div tr_buffer_width s)"
    if "k < length (tr_screen_buffer s)" for k
  proof -
    have "int k < tr_buffer_width s * tr_buffer_height s"
      using that assms(1) by (simp add: engine_ok_def)
    then have "in_bounds s (int k mod tr_buffer_width s) (int k div tr_buffer_width s)"
      using position_of_index [of k "tr_buffer_width s" "tr_buffer_height s"] assms(1)
      by (simp add: in_bounds_def engine_ok_def)
    then show ?thesis by (rule assms(2))
  qed
  then show ?thesis by (simp add: painted_def)
qed

lemma painted_write:
  assumes ok: "engine_ok s" and ib: "in_bounds s cx cy"
  shows "write_cell (cy * tr_buffer_width s + cx) c (painted P c s) =
         Inr (painted (\<lambda>u v. P u v \<or> (u = cx \<and> v = cy)) c s)"
proof -
  let ?w = "tr_buffer_width s" and ?h = "tr_buffer_height s"
  let ?n = "length (tr_screen_buffer s)"
  have rng: "0 \<le> cy * ?w + cx \<and> cy * ?w + cx < ?w * ?h"
    using ib by (intro index_bound) (simp_all add: in_bounds_def)
  then have lt: "nat (cy * ?w + cx) < ?n"
    using ok by (simp add: engine_ok_def nat_less_iff)
  have pos: "(int k mod ?w = cx \<and> int k div ?w = cy) \<longleftrightarrow> k = nat (cy * ?w + cx)" for k
  proof
    assume "int k mod ?w = cx \<and> int k div ?w = cy"
    then have "int k = cy * ?w + cx"
      by (metis mult.commute mult_div_mod_eq)
    then show "k = nat (cy * ?w + cx)" by simp
  next
    assume "k = nat (cy * ?w + cx)"
    then have "int k = cy * ?w + cx" using rng by simp
    then show "int k mod ?w = cx \<and> int k div ?w = cy"
      using ib by (simp add: in_bounds_def)
  qed
  have "(map (\<lambda>k. if P (int k mod ?w) (int k div ?w) then c else tr_screen_buffer s ! k) [0..<?n])
          [nat (cy * ?w + cx) := c] =
        map (\<lambda>k. if P (int k mod ?w) (int k div ?w) \<or> (int k mod ?w = cx \<and> int k div ?w = cy)
                 then c else tr_screen_buffer s ! k) [0..<?n]"
    using lt by (intro nth_equalityI) (auto simp: nth_list_update pos)
  then show ?thesis
    using rng lt by (simp add: write_cell_def painted_def)
qed

lemma painted_guarded_write:
  assumes ok: "engine_ok s"
  shows "(if in_bounds s cx cy then write_cell (cy * tr_buffer_width s + cx) c (painted P c s)
          else Inr (painted P c s)) =
         Inr (painted (\<lambda>u v. P u v \<or> (u = cx \<and> v = cy)) c s)"
proof (cases "in_bounds s cx cy")
  case True
  then show ?thesis using painted_write [OF ok True] by simp
next
  case False
  have "painted P c s = painted (\<lambda>u v. P u v \<or> (u = cx \<and> v = cy)) c s"
    by (rule painted_cong [OF ok]) (use False in auto)
  then show ?thesis using False by simp
qed

lemma painted_nth:
  assumes ok: "engine_ok s" and ib: "in_bounds s cx cy"
  shows "tr_screen_buffer (painted P c s) ! cell_index s cx cy =
         (if P cx cy then c else tr_screen_buffer s ! cell_index s cx cy)"
proof -
  let ?w = "tr_buffer_width s" and ?h = "tr_buffer_height s"
  have rng: "0 \<le> cy * ?w + cx \<and> cy * ?w + cx < ?w * ?h"
    using ib by (intro index_bound) (simp_all add: in_bounds_def)
  then have lt: "nat (cy * ?w + cx) < length (tr_screen_buffer s)"
    using ok by (simp add: engine_ok_def nat_less_iff)
  have "int (nat (cy * ?w + cx)) mod ?w = cx" "int (nat (cy * ?w + cx)) div ?w = cy"
    using rng ib by (simp_all add: in_bounds_def)
  then show ?thesis using lt by (simp add: painted_def cell_index_def)
qed

lemma draw_rectangle_painted:
  assumes ok: "engine_ok s"
  shows "TR_DrawRectangle x y width height fg bg s =
         Inr (painted (\<lambda>u v. x \<le> u \<and> u < x + width \<and> y \<le> v \<and> v < y + height)
                (mk_cell CHR '' '' fg (final_bg_color bg s)) s)"
proof -
  let ?c = "mk_cell CHR '' '' fg (final_bg_color bg s)"
  let ?body = "\<lambda>j i st.
                let current_x = x + i; current_y = y + j in
                if current_x \<ge> 0 \<and> current_x < tr_buffer_width st \<and>
                   current_y \<ge> 0 \<and> current_y < tr_buffer_height st
                then write_cell (current_y * tr_buffer_width st + current_x) ?c st
                else Inr st"
  let ?row = "\<lambda>j i u v. (x \<le> u \<and> u < x + width \<and> y \<le> v \<and> v < y + j) \<or>
                         (v = y + j \<and> x \<le> u \<and> u < x + i)"
  have inner: "\<exists>s'. for_loop 0 width (?body j) (painted (?row j 0) ?c s) = Inr s' \<and>
                  s' = painted (?row j (max 0 width)) ?c s" for j
  proof (rule for_loop_inv [where I = "\<lambda>i st. st = painted (?row j i) ?c s"])
    show "painted (?row j 0) ?c s = painted (?row j 0) ?c s" ..
  next
    fix i st
    assume "0 \<le> i" "i < width" and st: "st = painted (?row j i) ?c s"
    have "?body j i st =
          (if in_bounds s (x + i) (y + j)
           then write_cell ((y + j) * tr_buffer_width s + (x + i)) ?c (painted (?row j i) ?c s)
           else Inr (painted (?row j i) ?c s))"
      by (simp add: st Let_def in_bounds_def)
    also have "\<dots> = Inr (painted (\<lambda>u v. ?row j i u v \<or> (u = x + i \<and> v = y + j)) ?c s)"
      by (rule painted_guarded_write [OF ok])
    also have "(\<lambda>u v. ?row j i u v \<or> (u = x + i \<and> v = y + j)) = ?row j (i + 1)"
      using \<open>0 \<le> i\<close> by (intro ext) auto
    finally show "\<exists>st'. ?body j i st = Inr st' \<and> st' = painted (?row j (i + 1)) ?c s"
      by simp
  qed
  have outer: "\<exists>s'. for_loop 0 height (\<lambda>j. for_loop 0 width (?body j)) (painted (?row 0 0) ?c s) = Inr s' \<and>
                  s' = painted (?row (max 0 height) 0) ?c s"
  proof (rule for_loop_inv [where I = "\<lambda>j st. st = painted (?row j 0) ?c s"])
    show "painted (?row 0 0) ?c s = painted (?row 0 0) ?c s" ..
  next
    fix j st
    assume "0 \<le> j" "j < height" and st: "st = painted (?row j 0) ?c s"
    have "?row j (max 0 width) = ?row (j + 1) 0"
      using \<open>0 \<le> j\<close> by (intro ext) auto
    then show "\<exists>st'. for_loop 0 width (?body j) st = Inr st' \<and> st' = painted (?row (j + 1) 0) ?c s"
      using inner [of j] st by simp
  qed
  have "?row 0 0 = (\<lambda>u v. False)"
    by (intro ext) auto
  then have e0: "painted (?row 0 0) ?c s = s"
    using painted_none [of ?c s] by simp
  have e1: "?row (max 0 height) 0 = (\<lambda>u v. x \<le> u \<and> u < x + width \<and> y \<le> v \<and> v < y + height)"
    by (intro ext) auto
  obtain s' where run: "for_loop 0 height (\<lambda>j. for_loop 0 width (?body j)) (painted (?row 0 0) ?c s) = Inr s'"
    and res: "s' = painted (?row (max 0 height) 0) ?c s"
    using outer by blast
  have "tr_window_open s" using ok by (simp add: engine_ok_def)
  then have "TR_DrawRectangle x y width height fg bg s =
      for_loop 0 height (\<lambda>j. for_loop 0 width (?body j)) s"
    by (simp add: TR_DrawRectangle_def)
  then show ?thesis
    using run [unfolded e0] res [unfolded e1] by simp
qed

subsection \<open>The flush\<close>

lemma flush_ok:
  assumes ok: "engine_ok s"
  shows "TR_EndDrawing s =
     Inr (s\<lparr>tr_prev_screen_buffer := tr_screen_buffer s\<rparr>,
          concat (map (cell_writes s) (filter (changed_at s) (row_major s))) @ [FlushStdout])"
proof -
  let ?w = "tr_buffer_width s" and ?h = "tr_buffer_height s"
  have cellf: "flush_cell s y x out =
      Inr (out @ concat (map (cell_writes s) (filter (changed_at s) [(x, y)])))"
    if "0 \<le> x" "x < ?w" "0 \<le> y" "y < ?h" for x y out
  proof -
    have ib: "0 \<le> y * ?w + x \<and> y * ?w + x < ?w * ?h"
      using that by (rule index_bound)
    then show ?thesis
      using ok
      by (simp add: flush_cell_def read_cell_def engine_ok_def changed_at_def cell_writes_def
          cell_index_def Let_def)
  qed
  have row: "for_loop 0 ?w (flush_cell s y) out =
      Inr (out @ concat (map (cell_writes s) (filter (changed_at s) (map (\<lambda>x. (x, y)) [0..?w - 1]))))"
    if "0 \<le> y" "y < ?h" for y out
  proof -
    have "for_loop 0 ?w (flush_cell s y) out =
        Inr (out @ concat (map (\<lambda>x. concat (map (cell_writes s) (filter (changed_at s) [(x, y)])))
                            [0..?w - 1]))"
      by (rule for_loop_append) (use that cellf in simp)
    moreover have "concat (map (\<lambda>x. concat (map (cell_writes s) (filter (changed_at s) [(x, y)]))) xs)
         = concat (map (cell_writes s) (filter (changed_at s) (map (\<lambda>x. (x, y)) xs)))" for xs
      by (induction xs) auto
    ultimately show ?thesis by simp
  qed
  have all: "for_loop 0 ?h (\<lambda>y. for_loop 0 ?w (flush_cell s y)) [] =
      Inr ([] @ concat (map (\<lambda>y. concat (map (cell_writes s)
              (filter (changed_at s) (map (\<lambda>x. (x, y)) [0..?w - 1])))) [0..?h - 1]))"
    by (rule for_loop_append) (use row in simp)
  have cc: "concat (map (\<lambda>y. concat (map (cell_writes s)
              (filter (changed_at s) (map (\<lambda>x. (x, y)) xs)))) ys)
      = concat (map (cell_writes s) (filter (changed_at s)
           (concat (map (\<lambda>y. map (\<lambda>x. (x, y)) xs) ys))))" for xs ys
    by (induction ys) auto
  have cp: "memcpy_cells (tr_prev_screen_buffer s) (tr_screen_buffer s) (?w * ?h) =
      Inr (tr_screen_buffer s)"
    using ok by (auto simp: memcpy_cells_def engine_ok_def)
  show ?thesis
    using ok all cp by (simp add: TR_EndDrawing_def engine_ok_def cc row_major_def)
qed

subsection \<open>The palette scan\<close>

lemma color_dist_nonneg: "0 \<le> color_dist c t"
  by (simp add: color_dist_def)

lemma argmin_fold:
  "0 < n \<Longrightarrow> fold (map_color_step c) [0..<n] (-1, 0) = (m, i) \<Longrightarrow>
    i < n \<and> m = color_dist c (terminal_colors ! i) \<and>
    (\<forall>j < n. color_dist c (terminal_colors ! i) \<le> color_dist c (terminal_colors ! j)) \<and>
    (\<forall>j < i. color_dist c (terminal_colors ! i) < color_dist c (terminal_colors ! j))"
proof (induction n arbitrary: m i)
  case 0
  then show ?case by simp
next
  case (Suc n)
  obtain m0 i0 where st: "fold (map_color_step c) [0..<n] (-1, 0) = (m0, i0)"
    by (cases "fold (map_color_step c) [0..<n] (-1, 0)") auto
  have step: "map_color_step c n (m0, i0) = (m, i)"
    using Suc.prems(2) st by simp
  show ?case
  proof (cases "n = 0")
    case True
    then show ?thesis using step st by (auto simp: map_color_step_def Let_def)
  next
    case False
    then have "0 < n" by simp
    from Suc.IH [OF this st]
    have ih: "i0 < n" "m0 = color_dist c (terminal_colors ! i0)"
      "\<forall>j < n. color_dist c (terminal_colors ! i0) \<le> color_dist c (terminal_colors ! j)"
      "\<forall>j < i0. color_dist c (terminal_colors ! i0) < color_dist c (terminal_colors ! j)"
      by simp_all
    have nn: "m0 \<noteq> -1"
      using ih(2) color_dist_nonneg [of c "terminal_colors ! i0"] by simp
    show ?thesis
    proof (cases "color_dist c (terminal_colors ! n) < m0")
      case True
      then have eq: "m = color_dist c (terminal_colors ! n)" "i = n"
        using step by (auto simp: map_color_step_def Let_def)
      have "\<forall>j < Suc n. color_dist c (terminal_colors ! n) \<le> color_dist c (terminal_colors ! j)"
        using ih(2,3) True by (auto simp: less_Suc_eq)
      moreover have "\<forall>j < n. color_dist c (terminal_colors ! n) < color_dist c (terminal_colors ! j)"
        using ih(2,3) True by fastforce
      ultimately show ?thesis unfolding eq by simp
    next
      case False
      then have eq: "m = m0" "i = i0"
        using nn step by (auto simp: map_color_step_def Let_def)
      have "\<forall>j < Suc n. color_dist c (terminal_colors ! i0) \<le> color_dist c (terminal_colors ! j)"
        using ih(2,3) False by (auto simp: less_Suc_eq)
      then show ?thesis unfolding eq using ih by simp
    qed
  qed
qed

subsection \<open>Row-major order\<close>

lemma set_rows:
  "set (concat (map (\<lambda>y. map (\<lambda>x. (x, y)) xs) ys)) = set xs \<times> set ys"
  by (induction ys) auto

lemma distinct_rows:
  "distinct xs \<Longrightarrow> distinct ys \<Longrightarrow> distinct (concat (map (\<lambda>y. map (\<lambda>x. (x, y)) xs) ys))"
proof (induction ys)
  case Nil
  then show ?case by simp
next
  case (Cons y ys)
  have "distinct (map (\<lambda>x. (x, y)) xs)"
    using Cons.prems(1) by (simp add: distinct_map inj_on_def)
  moreover have "set (map (\<lambda>x. (x, y)) xs) \<inter> set (concat (map (\<lambda>y. map (\<lambda>x. (x, y)) xs) ys)) = {}"
    using Cons.prems(2) by (auto simp: set_rows)
  ultimately show ?case using Cons by simp
qed

lemma row_major_set: "set (row_major s) = {(x, y). in_bounds s x y}"
  by (auto simp: row_major_def set_rows in_bounds_def)

lemma row_major_distinct: "distinct (row_major s)"
  unfolding row_major_def by (intro distinct_rows) simp_all

subsection \<open>Flush: writes for the changed cells only\<close>

text \<open>
  C1, as amended. For an open session whose two buffers have \<open>width * height\<close> cells,
  \<open>TR_EndDrawing\<close> emits, in row-major order, one cursor move, one color set and one
  glyph for every position whose cell differs from the previous frame in its character
  or in the red, green or blue channel of its foreground or background (alpha is not
  compared), and nothing for any other position; every position of the buffer is
  visited exactly once; afterwards the previous buffer is a copy of the current one.
\<close>

theorem flush_emits_changed_cells:
  "engine_ok s \<Longrightarrow>
     TR_EndDrawing s =
       Inr (s\<lparr>tr_prev_screen_buffer := tr_screen_buffer s\<rparr>,
            concat (map (cell_writes s) (filter (changed_at s) (row_major s))) @ [FlushStdout]) \<and>
     distinct (row_major s) \<and> set (row_major s) = {(x, y). in_bounds s x y}"
  using flush_ok [of s] row_major_distinct [of s] row_major_set [of s] by simp

theorem flush_emits_changed_cells_witness:
  "engine_ok red_engine \<and>
   TR_EndDrawing red_engine =
     Inr (red_engine\<lparr>tr_prev_screen_buffer := tr_screen_buffer red_engine\<rparr>,
          [SetCursorPosition 1 0, SetTerminalColor RED RED, PutChar CHR '' '', FlushStdout])"
proof -
  have ok: "engine_ok red_engine"
    by code_simp
  have out: "concat (map (cell_writes red_engine) (filter (changed_at red_engine) (row_major red_engine)))
      = [SetCursorPosition 1 0, SetTerminalColor RED RED, PutChar CHR '' '']"
    by code_simp
  show ?thesis
    using flush_emits_changed_cells [OF ok] ok unfolding out by simp
qed

text \<open>
  As stated, with cells compared as whole \<open>(character, fg, bg)\<close> triples, the claim fails:
  a cell whose foreground differs from the previous frame in alpha only is not written.
\<close>

theorem flush_alpha_counterexample:
  "engine_ok alpha_engine \<and>
   fg_color (tr_screen_buffer alpha_engine ! 0) \<noteq> fg_color (tr_prev_screen_buffer alpha_engine ! 0) \<and>
   TR_EndDrawing alpha_engine =
     Inr (alpha_engine\<lparr>tr_prev_screen_buffer := tr_screen_buffer alpha_engine\<rparr>, [FlushStdout])"
  by code_simp

subsection \<open>The last key\<close>

lemma write_cell_fields:
  "write_cell i c st = Inr st' \<Longrightarrow>
     tr_key_buffer st' = tr_key_buffer st \<and>
     length (tr_screen_buffer st') = length (tr_screen_buffer st)"
  by (auto simp: write_cell_def split: if_splits)

lemma begin_drawing_key:
  assumes ok: "engine_ok s"
    and w: "TR_GetScreenWidth env = tr_initial_width s"
    and h: "TR_GetScreenHeight env = tr_initial_height s"
  shows "\<exists>s'. TR_BeginDrawing env s = Inr s' \<and> tr_key_buffer s' = tr_get_key_nonblocking env"
proof -
  let ?s1 = "s\<lparr>tr_key_buffer := tr_get_key_nonblocking env\<rparr>"
  let ?c = "mk_cell CHR '' '' (tr_current_bg_color ?s1) (tr_current_bg_color ?s1)"
  let ?n = "tr_buffer_width ?s1 * tr_buffer_height ?s1"
  let ?I = "\<lambda>(i::int) (st::'f engine). tr_key_buffer st = tr_get_key_nonblocking env \<and>
                       int (length (tr_screen_buffer st)) = ?n"
  have "\<exists>s'. for_loop 0 ?n (\<lambda>i. write_cell i ?c) ?s1 = Inr s' \<and> ?I (max 0 ?n) s'"
  proof (rule for_loop_inv [where I = ?I])
    show "?I 0 ?s1" using ok by (simp add: engine_ok_def)
  next
    fix i st
    assume i: "0 \<le> i" "i < ?n" and inv: "?I i st"
    then obtain st' where st': "write_cell i ?c st = Inr st'"
      by (auto simp: write_cell_def)
    then show "\<exists>st'. write_cell i ?c st = Inr st' \<and> ?I (i + 1) st'"
      using write_cell_fields [OF st'] inv by simp
  qed
  then show ?thesis
    using ok w h by (auto simp: TR_BeginDrawing_def engine_ok_def Let_def)
qed

text \<open>
  C2, as amended. In an open session whose terminal has kept its size,
  \<open>TR_BeginDrawing\<close> overwrites the last-key slot with the key sampled from the
  backend, whatever the slot held; the sample is 0 when no input is pending, so the slot
  is then cleared. \<open>TR_GetKeyPressed\<close> returns the held key and sets the slot to 0.
\<close>

theorem begin_drawing_overwrites_key:
  "(engine_ok s \<and> TR_GetScreenWidth env = tr_initial_width s \<and>
    TR_GetScreenHeight env = tr_initial_height s \<longrightarrow>
      (\<exists>s'. TR_BeginDrawing env s = Inr s' \<and> tr_key_buffer s' = tr_get_key_nonblocking env)) \<and>
   (select_result env \<le> 0 \<or> bytes_read env \<le> 0 \<longrightarrow> tr_get_key_nonblocking env = 0) \<and>
   TR_GetKeyPressed s = (tr_key_buffer s, s\<lparr>tr_key_buffer := 0\<rparr>)"
  using begin_drawing_key [of s env]
  by (auto simp: tr_get_key_nonblocking_def TR_GetKeyPressed_def Let_def)

theorem begin_drawing_overwrites_key_witness:
  "engine_ok demo_engine \<and> select_result demo_terminal \<le> 0 \<and>
   tr_get_key_nonblocking demo_terminal = 0 \<and>
   (\<exists>s'. TR_BeginDrawing demo_terminal demo_engine = Inr s' \<and> tr_key_buffer s' = 0) \<and>
   TR_GetKeyPressed demo_engine = (113, demo_engine\<lparr>tr_key_buffer := 0\<rparr>)"
proof -
  have pre: "engine_ok demo_engine" "TR_GetScreenWidth demo_terminal = tr_initial_width demo_engine"
    "TR_GetScreenHeight demo_terminal = tr_initial_height demo_engine"
    "select_result demo_terminal \<le> 0" "tr_key_buffer demo_engine = 113"
    by code_simp+
  show ?thesis
    using begin_drawing_overwrites_key [of demo_engine demo_terminal] pre by auto
qed

text \<open>
  As stated the claim fails: the slot holds the key \<open>q\<close>, no key is pending, and after
  \<open>TR_BeginDrawing\<close> the slot is 0.
\<close>

theorem key_cleared_counterexample:
  "tr_key_buffer demo_engine = 113 \<and> select_result demo_terminal = 0 \<and>
   TR_BeginDrawing demo_terminal demo_engine = Inr (demo_engine\<lparr>tr_key_buffer := 0\<rparr>)"
  by code_simp

subsection \<open>Nearest palette color\<close>

text \<open>
  C3. For every color \<open>c\<close> (and either value of the unused flag) the result of
  \<open>tr_map_color_to_terminal\<close> is an index in \<open>[0, 8)\<close> whose palette color has the
  least squared RGB distance to \<open>c\<close>; every smaller index has a strictly larger distance,
  so ties go to the lowest index; the result does not depend on the flag; and each of the
  eight palette colors maps to its own index.
\<close>

theorem map_color_nearest:
  "0 \<le> tr_map_color_to_terminal c bgf \<and> tr_map_color_to_terminal c bgf < 8 \<and>
   (\<forall>j < 8. color_dist c (terminal_colors ! nat (tr_map_color_to_terminal c bgf))
              \<le> color_dist c (terminal_colors ! j)) \<and>
   (\<forall>j < nat (tr_map_color_to_terminal c bgf).
        color_dist c (terminal_colors ! nat (tr_map_color_to_terminal c bgf))
          < color_dist c (terminal_colors ! j)) \<and>
   tr_map_color_to_terminal c bgf = tr_map_color_to_terminal c (\<not> bgf) \<and>
   (\<forall>k < 8. tr_map_color_to_terminal (terminal_colors ! k) bgf = int k)"
proof -
  obtain m i where st: "fold (map_color_step c) [0..<8] (-1, 0) = (m, i)"
    by (cases "fold (map_color_step c) [0..<8] (-1, 0)") auto
  have res: "tr_map_color_to_terminal c bgf = int i" "tr_map_color_to_terminal c (\<not> bgf) = int i"
    by (simp_all add: tr_map_color_to_terminal_def st)
  have am: "i < 8 \<and> m = color_dist c (terminal_colors ! i) \<and>
    (\<forall>j < 8. color_dist c (terminal_colors ! i) \<le> color_dist c (terminal_colors ! j)) \<and>
    (\<forall>j < i. color_dist c (terminal_colors ! i) < color_dist c (terminal_colors ! j))"
    using argmin_fold [OF _ st] by simp
  have canon: "\<forall>k < 8. tr_map_color_to_terminal (terminal_colors ! k) bgf = int k"
  proof (intro allI impI)
    fix k :: nat assume "k < 8"
    then consider "k = 0" | "k = 1" | "k = 2" | "k = 3" | "k = 4" | "k = 5" | "k = 6" | "k = 7"
      by linarith
    then show "tr_map_color_to_terminal (terminal_colors ! k) bgf = int k"
      by cases (simp_all add: tr_map_color_to_terminal_def terminal_colors_def mk_color_def
          map_color_step_def color_dist_def upt_rec [of _ 8] Let_def)
  qed
  show ?thesis
    unfolding res using am canon by simp
qed

theorem map_color_nearest_witness:
  "tr_map_color_to_terminal RED False = 1 \<and>
   color_dist RED (terminal_colors ! 1) \<le> color_dist RED (terminal_colors ! 7) \<and>
   color_dist RED (terminal_colors ! 1) < color_dist RED (terminal_colors ! 0) \<and>
   tr_map_color_to_terminal (terminal_colors ! 5) False = 5"
proof -
  have v: "tr_map_color_to_terminal RED False = 1"
    by code_simp
  note th = map_color_nearest [of RED False, unfolded v]
  from th have le: "\<forall>j < 8. color_dist RED (terminal_colors ! nat 1) \<le> color_dist RED (terminal_colors ! j)"
    by blast
  from th have lt: "\<forall>j < nat 1. color_dist RED (terminal_colors ! nat 1) < color_dist RED (terminal_colors ! j)"
    by blast
  from th have cn: "\<forall>k < 8. tr_map_color_to_terminal (terminal_colors ! k) False = int k"
    by blast
  have "color_dist RED (terminal_colors ! 1) \<le> color_dist RED (terminal_colors ! 7)"
    using le [rule_format, of 7] by simp
  moreover have "color_dist RED (terminal_colors ! 1) < color_dist RED (terminal_colors ! 0)"
    using lt [rule_format, of 0] by simp
  moreover have "tr_map_color_to_terminal (terminal_colors ! 5) False = 5"
    using cn [rule_format, of 5] by simp
  ultimately show ?thesis using v by simp
qed

subsection \<open>Drawing outside the buffer\<close>

lemma int_wrap_id: "- 2147483648 \<le> v \<Longrightarrow> v < 2147483648 \<Longrightarrow> int_wrap v = v"
  by (simp add: int_wrap_def)

text \<open>
  C4. In every session, a call of \<open>TR_DrawPixel\<close>, \<open>TR_DrawText\<close>, \<open>TR_DrawRectangle\<close>
  or \<open>TR_DrawRectangleLines\<close> all of whose addressed cells lie outside
  \<open>[0, width) \<times> [0, height)\<close> returns the engine unchanged: no cell is written,
  no access outside a buffer happens and no error is raised. The cells that the outline
  addresses have the coordinates that the code computes, in 32-bit arithmetic.
\<close>

theorem out_of_bounds_noop:
  "(\<not> in_bounds s x y \<longrightarrow> TR_DrawPixel x y c s = Inr s) \<and>
   TR_DrawText None x y fontSize fg bg s = Inr s \<and>
   ((\<forall>i. 0 \<le> i \<and> i < int (length chars) \<longrightarrow> \<not> in_bounds s (x + i) y) \<longrightarrow>
      TR_DrawText (Some chars) x y fontSize fg bg s = Inr s) \<and>
   ((\<forall>i j. 0 \<le> i \<and> i < width \<and> 0 \<le> j \<and> j < height \<longrightarrow> \<not> in_bounds s (x + i) (y + j)) \<longrightarrow>
      TR_DrawRectangle x y width height fg bg s = Inr s) \<and>
   ((\<forall>i. 0 \<le> i \<and> i < width \<longrightarrow>
          \<not> in_bounds s (int_wrap (x + i)) y \<and>
          \<not> in_bounds s (int_wrap (x + i)) (int_wrap (int_wrap (y + height) - 1))) \<and>
    (\<forall>j. 1 \<le> j \<and> j < int_wrap (height - 1) \<longrightarrow>
          \<not> in_bounds s x (int_wrap (y + j)) \<and>
          \<not> in_bounds s (int_wrap (int_wrap (x + width) - 1)) (int_wrap (y + j))) \<longrightarrow>
      TR_DrawRectangleLines x y width height fg bg s = Inr s)"
proof (intro conjI impI)
  assume "\<not> in_bounds s x y"
  then show "TR_DrawPixel x y c s = Inr s"
    by (auto simp: TR_DrawPixel_def in_bounds_def)
next
  show "TR_DrawText None x y fontSize fg bg s = Inr s"
    by (simp add: TR_DrawText_def)
next
  assume out: "\<forall>i. 0 \<le> i \<and> i < int (length chars) \<longrightarrow> \<not> in_bounds s (x + i) y"
  show "TR_DrawText (Some chars) x y fontSize fg bg s = Inr s"
  proof (cases "\<not> tr_window_open s \<or> y < 0 \<or> y \<ge> tr_buffer_height s")
    case True
    then show ?thesis by (auto simp: TR_DrawText_def)
  next
    case False
    have "for_loop 0 (int (length chars))
            (\<lambda>i st. let current_x = x + i in
                 if current_x \<ge> 0 \<and> current_x < tr_buffer_width st
                 then write_cell (y * tr_buffer_width st + current_x)
                        (mk_cell (chars ! nat i) fg (final_bg_color bg s)) st
                 else Inr st) s = Inr s"
      by (rule for_loop_skip) (use out False in \<open>auto simp: in_bounds_def Let_def\<close>)
    then show ?thesis using False by (simp add: TR_DrawText_def)
  qed
next
  assume out: "\<forall>i j. 0 \<le> i \<and> i < width \<and> 0 \<le> j \<and> j < height \<longrightarrow> \<not> in_bounds s (x + i) (y + j)"
  show "TR_DrawRectangle x y width height fg bg s = Inr s"
  proof (cases "tr_window_open s")
    case False
    then show ?thesis by (simp add: TR_DrawRectangle_def)
  next
    case True
    have "for_loop 0 height
          (\<lambda>j. for_loop 0 width
             (\<lambda>i st.
                let current_x = x + i; current_y = y + j in
                if current_x \<ge> 0 \<and> current_x < tr_buffer_width st \<and>
                   current_y \<ge> 0 \<and> current_y < tr_buffer_height st
                then write_cell (current_y * tr_buffer_width st + current_x)
                       (mk_cell CHR '' '' fg (final_bg_color bg s)) st
                else Inr st)) s = Inr s"
      by (rule for_loop_skip, rule for_loop_skip) (use out in \<open>auto simp: in_bounds_def Let_def\<close>)
    then show ?thesis using True by (simp add: TR_DrawRectangle_def)
  qed
next
  assume out: "(\<forall>i. 0 \<le> i \<and> i < width \<longrightarrow>
          \<not> in_bounds s (int_wrap (x + i)) y \<and>
          \<not> in_bounds s (int_wrap (x + i)) (int_wrap (int_wrap (y + height) - 1))) \<and>
    (\<forall>j. 1 \<le> j \<and> j < int_wrap (height - 1) \<longrightarrow>
          \<not> in_bounds s x (int_wrap (y + j)) \<and>
          \<not> in_bounds s (int_wrap (int_wrap (x + width) - 1)) (int_wrap (y + j)))"
  show "TR_DrawRectangleLines x y width height fg bg s = Inr s"
  proof (cases "tr_window_open s")
    case False
    then show ?thesis by (simp add: TR_DrawRectangleLines_def)
  next
    case True
    have nb: "\<And>cx cy f b. \<not> in_bounds s cx cy \<Longrightarrow> border_cell cx cy f b s = Inr s"
      by (auto simp: border_cell_def in_bounds_def)
    have l1: "for_loop 0 width
               (\<lambda>i st.
                  case border_cell (int_wrap (x + i)) y fg (final_bg_color bg s) st of
                    Inl e \<Rightarrow> Inl e
                  | Inr st' \<Rightarrow>
                      border_cell (int_wrap (x + i)) (int_wrap (int_wrap (y + height) - 1))
                        fg (final_bg_color bg s) st') s
              = Inr s"
      by (rule for_loop_skip) (use out nb in simp)
    have l2: "for_loop 1 (int_wrap (height - 1))
              (\<lambda>j st.
                 case border_cell x (int_wrap (y + j)) fg (final_bg_color bg s) st of
                   Inl e \<Rightarrow> Inl e
                 | Inr st' \<Rightarrow>
                     border_cell (int_wrap (int_wrap (x + width) - 1)) (int_wrap (y + j))
                       fg (final_bg_color bg s) st') s
              = Inr s"
      by (rule for_loop_skip) (use out nb in simp)
    show ?thesis using True l1 l2 by (simp add: TR_DrawRectangleLines_def)
  qed
qed

theorem out_of_bounds_noop_witness:
  "\<not> in_bounds demo_engine 5 5 \<and>
   TR_DrawPixel 5 5 RED demo_engine = Inr demo_engine \<and>
   TR_DrawText (Some ''hi'') (-7) 1 12 WHITE BLANK demo_engine = Inr demo_engine \<and>
   TR_DrawRectangle 2 0 3 3 RED BLUE demo_engine = Inr demo_engine \<and>
   TR_DrawRectangleLines (-10) (-10) 3 3 RED BLUE demo_engine = Inr demo_engine"
proof -
  have ib: "in_bounds demo_engine cx cy \<longleftrightarrow> 0 \<le> cx \<and> cx < 2 \<and> 0 \<le> cy \<and> cy < 2" for cx cy
    by (simp add: in_bounds_def demo_engine_def)
  have p: "\<not> in_bounds demo_engine 5 5" by (simp add: ib)
  have t: "\<forall>i. 0 \<le> i \<and> i < int (length ''hi'') \<longrightarrow> \<not> in_bounds demo_engine (- 7 + i) 1"
    by (auto simp: ib)
  have r: "\<forall>i j. 0 \<le> i \<and> i < 3 \<and> 0 \<le> j \<and> j < 3 \<longrightarrow> \<not> in_bounds demo_engine (2 + i) (0 + j)"
    by (auto simp: ib)
  have l: "(\<forall>i. 0 \<le> i \<and> i < 3 \<longrightarrow>
          \<not> in_bounds demo_engine (int_wrap (- 10 + i)) (- 10) \<and>
          \<not> in_bounds demo_engine (int_wrap (- 10 + i)) (int_wrap (int_wrap (- 10 + 3) - 1))) \<and>
    (\<forall>j. 1 \<le> j \<and> j < int_wrap (3 - 1) \<longrightarrow>
          \<not> in_bounds demo_engine (- 10) (int_wrap (- 10 + j)) \<and>
          \<not> in_bounds demo_engine (int_wrap (int_wrap (- 10 + 3) - 1)) (int_wrap (- 10 + j)))"
    by (auto simp: ib int_wrap_id)
  have 1: "TR_DrawPixel 5 5 RED demo_engine = Inr demo_engine"
    using out_of_bounds_noop [where s = "demo_engine" and x = "5" and y = "5" and c = "RED"] p by blast
  have 2: "TR_DrawText (Some ''hi'') (-7) 1 12 WHITE BLANK demo_engine = Inr demo_engine"
    using out_of_bounds_noop [where s = "demo_engine" and x = "-7" and y = "1" and chars = "''hi''"
        and fontSize = "12" and fg = "WHITE" and bg = "BLANK"] t by blast
  have 3: "TR_DrawRectangle 2 0 3 3 RED BLUE demo_engine = Inr demo_engine"
    using out_of_bounds_noop [where s = "demo_engine" and x = "2" and y = "0" and fg = "RED" and bg = "BLUE"
        and width = "3" and height = "3"] r by blast
  have 4: "TR_DrawRectangleLines (-10) (-10) 3 3 RED BLUE demo_engine = Inr demo_engine"
    using out_of_bounds_noop [where s = "demo_engine" and x = "-10" and y = "-10" and fg = "RED"
        and bg = "BLUE" and width = "3" and height = "3"] l by blast
  show ?thesis using p 1 2 3 4 by blast
qed

text \<open>
  A sum that wraps can address a cell: with \<open>y\<close> the least \<^verbatim>\<open>int\<close> and \<open>height\<close> the
  next one, \<^verbatim>\<open>y + height - 1\<close> is 0 in 32-bit arithmetic, and the outline writes the
  first cell of the buffer.
\<close>

lemma rectangle_lines_wrapped_row:
  "int_wrap (int_wrap (- 2147483648 + - 2147483647) - 1) = 0 \<and>
   TR_DrawRectangleLines 0 (- 2147483648) 1 (- 2147483647) RED BLUE demo_engine =
     Inr (demo_engine\<lparr>tr_screen_buffer :=
            (tr_screen_buffer demo_engine)[0 := mk_cell CHR ''#'' RED BLUE]\<rparr>)"
  by code_simp

subsection \<open>Filled rectangles\<close>

lemma write_cell_open:
  "write_cell i c st = Inr st' \<Longrightarrow> tr_window_open st' = tr_window_open st"
  by (auto simp: write_cell_def split: if_splits)

lemma draw_rectangle_as_pixels:
  assumes fg: "fg = final_bg_color bg s"
  shows "TR_DrawRectangle x y width height fg bg s =
         for_loop 0 height (\<lambda>j. for_loop 0 width (\<lambda>i. TR_DrawPixel (x + i) (y + j) fg)) s"
proof (cases "tr_window_open s")
  case False
  have "for_loop 0 height (\<lambda>j. for_loop 0 width (\<lambda>i. TR_DrawPixel (x + i) (y + j) fg)) s = Inr s"
    by (rule for_loop_skip, rule for_loop_skip) (simp add: TR_DrawPixel_def False)
  then show ?thesis using False by (simp add: TR_DrawRectangle_def)
next
  case True
  let ?body = "\<lambda>j i st.
                let current_x = x + i; current_y = y + j in
                if current_x \<ge> 0 \<and> current_x < tr_buffer_width st \<and>
                   current_y \<ge> 0 \<and> current_y < tr_buffer_height st
                then write_cell (current_y * tr_buffer_width st + current_x)
                       (mk_cell CHR '' '' fg (final_bg_color bg s)) st
                else Inr st"
  have body_eq: "?body j i st = TR_DrawPixel (x + i) (y + j) fg st" if "tr_window_open st" for j i st
    using that fg [symmetric] by (auto simp: TR_DrawPixel_def Let_def)
  have body_open: "tr_window_open st'" if "tr_window_open st" "?body j i st = Inr st'" for j i st st'
    using that write_cell_open [of _ _ st st'] by (auto simp: Let_def split: if_splits)
  have inner_eq: "for_loop 0 width (?body j) st =
                  for_loop 0 width (\<lambda>i. TR_DrawPixel (x + i) (y + j) fg) st"
    if "tr_window_open st" for j st
    by (rule for_loop_cong_inv [where I = tr_window_open]) (use that body_eq body_open in blast)+
  have inner_open: "tr_window_open st'"
    if "tr_window_open st" "for_loop 0 width (?body j) st = Inr st'" for j st st'
    by (rule for_loop_preserves [where I = tr_window_open, OF that(2) that(1)])
       (use body_open in blast)
  have "for_loop 0 height (\<lambda>j. for_loop 0 width (?body j)) s =
        for_loop 0 height (\<lambda>j. for_loop 0 width (\<lambda>i. TR_DrawPixel (x + i) (y + j) fg)) s"
    by (rule for_loop_cong_inv [where I = tr_window_open]) (use True inner_eq inner_open in blast)+
  then show ?thesis using True by (simp add: TR_DrawRectangle_def)
qed

text \<open>
  C6, as amended. In an open session \<open>TR_DrawRectangle x y width height fg bg\<close> succeeds
  and changes the screen buffer only: every in-bounds cell of the rectangle holds a
  space with foreground \<open>fg\<close> and with the background \<open>bg\<close>, or the color of the last
  clear when \<open>bg\<close> is the sentinel; every other cell is as before. When \<open>fg\<close> is equal
  to that resolved background, the call is the same as \<open>TR_DrawPixel\<close> with that color
  at every position of the rectangle, row by row.
\<close>

theorem draw_rectangle_cells:
  "(engine_ok s \<longrightarrow>
      (\<exists>s'. TR_DrawRectangle x y width height fg bg s = Inr s' \<and>
            s' = s\<lparr>tr_screen_buffer := tr_screen_buffer s'\<rparr> \<and>
            length (tr_screen_buffer s') = length (tr_screen_buffer s) \<and>
            (\<forall>cx cy. in_bounds s cx cy \<longrightarrow>
               tr_screen_buffer s' ! cell_index s cx cy =
                 (if x \<le> cx \<and> cx < x + width \<and> y \<le> cy \<and> cy < y + height
                  then mk_cell CHR '' '' fg (final_bg_color bg s)
                  else tr_screen_buffer s ! cell_index s cx cy)))) \<and>
   (fg = final_bg_color bg s \<longrightarrow>
      TR_DrawRectangle x y width height fg bg s =
        for_loop 0 height (\<lambda>j. for_loop 0 width (\<lambda>i. TR_DrawPixel (x + i) (y + j) fg)) s)"
proof (intro conjI impI)
  assume ok: "engine_ok s"
  let ?R = "\<lambda>u v. x \<le> u \<and> u < x + width \<and> y \<le> v \<and> v < y + height"
  let ?s' = "painted ?R (mk_cell CHR '' '' fg (final_bg_color bg s)) s"
  have "TR_DrawRectangle x y width height fg bg s = Inr ?s'"
    by (rule draw_rectangle_painted [OF ok])
  moreover have "?s' = s\<lparr>tr_screen_buffer := tr_screen_buffer ?s'\<rparr>"
    by (simp add: painted_def)
  moreover have "length (tr_screen_buffer ?s') = length (tr_screen_buffer s)"
    by simp
  moreover have "\<forall>cx cy. in_bounds s cx cy \<longrightarrow>
               tr_screen_buffer ?s' ! cell_index s cx cy =
                 (if ?R cx cy then mk_cell CHR '' '' fg (final_bg_color bg s)
                  else tr_screen_buffer s ! cell_index s cx cy)"
    using painted_nth [OF ok] by blast
  ultimately show "\<exists>s'. TR_DrawRectangle x y width height fg bg s = Inr s' \<and>
            s' = s\<lparr>tr_screen_buffer := tr_screen_buffer s'\<rparr> \<and>
            length (tr_screen_buffer s') = length (tr_screen_buffer s) \<and>
            (\<forall>cx cy. in_bounds s cx cy \<longrightarrow>
               tr_screen_buffer s' ! cell_index s cx cy =
                 (if x \<le> cx \<and> cx < x + width \<and> y \<le> cy \<and> cy < y + height
                  then mk_cell CHR '' '' fg (final_bg_color bg s)
                  else tr_screen_buffer s ! cell_index s cx cy))"
    by blast
next
  assume "fg = final_bg_color bg s"
  then show "TR_DrawRectangle x y width height fg bg s =
        for_loop 0 height (\<lambda>j. for_loop 0 width (\<lambda>i. TR_DrawPixel (x + i) (y + j) fg)) s"
    by (rule draw_rectangle_as_pixels)
qed

theorem draw_rectangle_cells_witness:
  "engine_ok demo_engine \<and> in_bounds demo_engine 1 0 \<and> in_bounds demo_engine 0 0 \<and>
   (\<exists>s'. TR_DrawRectangle 1 0 5 1 RED BLUE demo_engine = Inr s' \<and>
      tr_screen_buffer s' ! 1 = mk_cell CHR '' '' RED BLUE \<and>
      tr_screen_buffer s' ! 0 = mk_cell CHR '' '' BLACK BLACK) \<and>
   RED = final_bg_color RED demo_engine \<and>
   TR_DrawRectangle 0 0 2 1 RED RED demo_engine =
     for_loop 0 1 (\<lambda>j. for_loop 0 2 (\<lambda>i. TR_DrawPixel (0 + i) (0 + j) RED)) demo_engine"
proof -
  note th1 = draw_rectangle_cells [of demo_engine 1 0 5 1 RED BLUE]
  note th2 = draw_rectangle_cells [of demo_engine 0 0 2 1 RED RED]
  have pre: "engine_ok demo_engine" "in_bounds demo_engine 1 0" "in_bounds demo_engine 0 0"
    "cell_index demo_engine 1 0 = 1" "cell_index demo_engine 0 0 = 0"
    "RED = final_bg_color RED demo_engine" "final_bg_color BLUE demo_engine = BLUE"
    "tr_screen_buffer demo_engine ! 0 = mk_cell CHR '' '' BLACK BLACK"
    by code_simp+
  obtain s' where r: "TR_DrawRectangle 1 0 5 1 RED BLUE demo_engine = Inr s'"
    and cells: "\<forall>cx cy. in_bounds demo_engine cx cy \<longrightarrow>
               tr_screen_buffer s' ! cell_index demo_engine cx cy =
                 (if 1 \<le> cx \<and> cx < 1 + 5 \<and> 0 \<le> cy \<and> cy < 0 + 1
                  then mk_cell CHR '' '' RED (final_bg_color BLUE demo_engine)
                  else tr_screen_buffer demo_engine ! cell_index demo_engine cx cy)"
    using th1 pre(1) by blast
  have c1: "tr_screen_buffer s' ! 1 = mk_cell CHR '' '' RED BLUE"
    using cells [rule_format, OF pre(2)] pre(4,7) by simp
  have c0: "tr_screen_buffer s' ! 0 = mk_cell CHR '' '' BLACK BLACK"
    using cells [rule_format, OF pre(3)] pre(5,8) by simp
  have px: "TR_DrawRectangle 0 0 2 1 RED RED demo_engine =
     for_loop 0 1 (\<lambda>j. for_loop 0 2 (\<lambda>i. TR_DrawPixel (0 + i) (0 + j) RED)) demo_engine"
    using th2 pre(6) by blast
  show ?thesis using pre(1,2,3,6) r c1 c0 px by blast
qed

text \<open>
  As stated the claim fails: a rectangle drawn with a red foreground and a blue
  background writes a cell that no call of \<open>TR_DrawPixel\<close> writes.
\<close>

theorem draw_rectangle_two_colors_counterexample:
  "TR_DrawRectangle 0 0 1 1 RED BLUE demo_engine =
     Inr (demo_engine\<lparr>tr_screen_buffer :=
            (tr_screen_buffer demo_engine)[0 := mk_cell CHR '' '' RED BLUE]\<rparr>) \<and>
   TR_DrawPixel 0 0 RED demo_engine =
     Inr (demo_engine\<lparr>tr_screen_buffer :=
            (tr_screen_buffer demo_engine)[0 := mk_cell CHR '' '' RED RED]\<rparr>) \<and>
   TR_DrawPixel 0 0 BLUE demo_engine =
     Inr (demo_engine\<lparr>tr_screen_buffer :=
            (tr_screen_buffer demo_engine)[0 := mk_cell CHR '' '' BLUE BLUE]\<rparr>) \<and>
   TR_DrawRectangle 0 0 1 1 RED BLUE demo_engine \<noteq> TR_DrawPixel 0 0 RED demo_engine \<and>
   TR_DrawRectangle 0 0 1 1 RED BLUE demo_engine \<noteq> TR_DrawPixel 0 0 BLUE demo_engine"
  by code_simp

subsection \<open>Opening the window\<close>

text \<open>
  C9. \<open>TR_InitWindow\<close> does not depend on its width and height arguments: any two
  requests give the same result, and when the window opens, the dimensions of the
  buffers (the bounds of every drawing call) are the ones the terminal reported.
\<close>

theorem init_window_ignores_size:
  "TR_InitWindow width height title env s = TR_InitWindow width' height' title env s \<and>
   (\<not> tr_window_open s \<longrightarrow>
      (\<forall>s' out. TR_InitWindow width height title env s = Inr (s', out) \<longrightarrow>
         tr_buffer_width s' = TR_GetScreenWidth env \<and>
         tr_buffer_height s' = TR_GetScreenHeight env \<and>
         tr_initial_width s' = TR_GetScreenWidth env \<and>
         tr_initial_height s' = TR_GetScreenHeight env \<and>
         int (length (tr_screen_buffer s')) = TR_GetScreenWidth env * TR_GetScreenHeight env \<and>
         engine_ok s'))"
  by (auto simp: TR_InitWindow_def Let_def engine_ok_def TR_GetScreenWidth_def
      TR_GetScreenHeight_def tr_get_screen_width_platform_def tr_get_screen_height_platform_def
      split: if_splits)

theorem init_window_ignores_size_witness:
  "\<not> tr_window_open closed_engine \<and>
   TR_InitWindow 80 24 ''demo'' demo_terminal closed_engine =
     TR_InitWindow 1 1 ''demo'' demo_terminal closed_engine \<and>
   (\<exists>s' out. TR_InitWindow 80 24 ''demo'' demo_terminal closed_engine = Inr (s', out) \<and>
      tr_buffer_width s' = 2 \<and> tr_buffer_height s' = 2)"
proof -
  have c: "\<not> tr_window_open closed_engine" "TR_GetScreenWidth demo_terminal = 2"
    "TR_GetScreenHeight demo_terminal = 2" "malloc_ok demo_terminal"
    by code_simp+
  obtain s' out where r: "TR_InitWindow 80 24 ''demo'' demo_terminal closed_engine = Inr (s', out)"
    by (cases "TR_InitWindow 80 24 ''demo'' demo_terminal closed_engine")
       (auto simp: TR_InitWindow_def Let_def c)
  note th = init_window_ignores_size [of 80 24 "''demo''" demo_terminal closed_engine 1 1]
  have e: "TR_InitWindow 80 24 ''demo'' demo_terminal closed_engine =
           TR_InitWindow 1 1 ''demo'' demo_terminal closed_engine"
    using th by (rule conjunct1)
  have d: "tr_buffer_width s' = 2 \<and> tr_buffer_height s' = 2"
    using th c r by simp
  show ?thesis
    using c(1) e r d by blast
qed

subsection \<open>Alpha is never compared\<close>

lemma final_bg_color_rgb:
  "rgb bg = rgb BLANK \<Longrightarrow> final_bg_color bg s = tr_current_bg_color s"
  by (simp add: final_bg_color_def tr_colors_equal_def rgb_def)

lemma cursor_in_writes:
  "SetCursorPosition x y \<in> set (concat (map (cell_writes s) ps)) \<Longrightarrow> (x, y) \<in> set ps"
  by (induction ps) (auto simp: cell_writes_def Let_def)

lemma unchanged_not_emitted:
  assumes "engine_ok s" and "\<not> changed_at s (x, y)"
  shows "\<exists>s' out. TR_EndDrawing s = Inr (s', out) \<and> SetCursorPosition x y \<notin> set out"
proof -
  have "SetCursorPosition x y \<notin>
          set (concat (map (cell_writes s) (filter (changed_at s) (row_major s))) @ [FlushStdout])"
    using assms(2) cursor_in_writes [of x y s "filter (changed_at s) (row_major s)"] by auto
  then show ?thesis using flush_ok [OF assms(1)] by simp
qed

text \<open>
  C10. Two colors with the same red, green and blue channels are equal for
  \<open>tr_colors_equal\<close> whatever their alpha; so every color with the channels \<open>(1, 0, 0)\<close>
  is the inherit-background sentinel of \<open>TR_DrawText\<close>, \<open>TR_DrawRectangle\<close> and
  \<open>TR_DrawRectangleLines\<close>, and the flush emits no write for a cell that differs from
  the previous frame in alpha only.
\<close>

theorem alpha_ignored:
  "(rgb c1 = rgb c2 \<longrightarrow> tr_colors_equal c1 c2) \<and>
   (rgb bg = (1, 0, 0) \<longrightarrow>
      final_bg_color bg s = tr_current_bg_color s \<and>
      TR_DrawText text x y fontSize fg bg s = TR_DrawText text x y fontSize fg BLANK s \<and>
      TR_DrawRectangle x y width height fg bg s = TR_DrawRectangle x y width height fg BLANK s \<and>
      TR_DrawRectangleLines x y width height fg bg s =
        TR_DrawRectangleLines x y width height fg BLANK s) \<and>
   (engine_ok s \<and> in_bounds s x y \<and>
    character (tr_screen_buffer s ! cell_index s x y) =
      character (tr_prev_screen_buffer s ! cell_index s x y) \<and>
    rgb (fg_color (tr_screen_buffer s ! cell_index s x y)) =
      rgb (fg_color (tr_prev_screen_buffer s ! cell_index s x y)) \<and>
    rgb (bg_color (tr_screen_buffer s ! cell_index s x y)) =
      rgb (bg_color (tr_prev_screen_buffer s ! cell_index s x y)) \<longrightarrow>
      (\<exists>s' out. TR_EndDrawing s = Inr (s', out) \<and> SetCursorPosition x y \<notin> set out))"
proof (intro conjI impI)
  assume "rgb c1 = rgb c2"
  then show "tr_colors_equal c1 c2" by (simp add: rgb_def tr_colors_equal_def)
next
  assume "rgb bg = (1, 0, 0)"
  then have b: "rgb bg = rgb BLANK" by (simp add: rgb_def BLANK_def mk_color_def)
  have f: "final_bg_color bg s = final_bg_color BLANK s"
    using final_bg_color_rgb [OF b] final_bg_color_rgb [of BLANK s] by simp
  show "final_bg_color bg s = tr_current_bg_color s" by (rule final_bg_color_rgb [OF b])
  show "TR_DrawText text x y fontSize fg bg s = TR_DrawText text x y fontSize fg BLANK s"
    unfolding TR_DrawText_def f by (rule refl)
  show "TR_DrawRectangle x y width height fg bg s = TR_DrawRectangle x y width height fg BLANK s"
    unfolding TR_DrawRectangle_def f by (rule refl)
  show "TR_DrawRectangleLines x y width height fg bg s =
        TR_DrawRectangleLines x y width height fg BLANK s"
    unfolding TR_DrawRectangleLines_def f by (rule refl)
next
  assume a: "engine_ok s \<and> in_bounds s x y \<and>
    character (tr_screen_buffer s ! cell_index s x y) =
      character (tr_prev_screen_buffer s ! cell_index s x y) \<and>
    rgb (fg_color (tr_screen_buffer s ! cell_index s x y)) =
      rgb (fg_color (tr_prev_screen_buffer s ! cell_index s x y)) \<and>
    rgb (bg_color (tr_screen_buffer s ! cell_index s x y)) =
      rgb (bg_color (tr_prev_screen_buffer s ! cell_index s x y))"
  then have "\<not> changed_at s (x, y)"
    by (simp add: changed_at_def cell_changed_def tr_colors_equal_def rgb_def)
  then show "\<exists>s' out. TR_EndDrawing s = Inr (s', out) \<and> SetCursorPosition x y \<notin> set out"
    using a unchanged_not_emitted by blast
qed

theorem alpha_ignored_witness:
  "tr_colors_equal (mk_color 1 0 0 255) BLANK \<and>
   TR_DrawText (Some ''hi'') 0 0 12 WHITE (mk_color 1 0 0 255) demo_engine =
     TR_DrawText (Some ''hi'') 0 0 12 WHITE BLANK demo_engine \<and>
   (\<exists>s' out. TR_EndDrawing alpha_engine = Inr (s', out) \<and> SetCursorPosition 0 0 \<notin> set out)"
proof -
  note th = alpha_ignored [of "mk_color 1 0 0 255" BLANK "mk_color 1 0 0 255" demo_engine
      "Some ''hi''" 0 0 12 WHITE 1 1]
  note th2 = alpha_ignored [of BLANK BLANK BLANK alpha_engine None 0 0 0 WHITE 0 0]
  have h1: "rgb (mk_color 1 0 0 255) = rgb BLANK" "rgb (mk_color 1 0 0 255) = (1, 0, 0)"
    by code_simp+
  have h2: "engine_ok alpha_engine \<and> in_bounds alpha_engine 0 0 \<and>
    character (tr_screen_buffer alpha_engine ! cell_index alpha_engine 0 0) =
      character (tr_prev_screen_buffer alpha_engine ! cell_index alpha_engine 0 0) \<and>
    rgb (fg_color (tr_screen_buffer alpha_engine ! cell_index alpha_engine 0 0)) =
      rgb (fg_color (tr_prev_screen_buffer alpha_engine ! cell_index alpha_engine 0 0)) \<and>
    rgb (bg_color (tr_screen_buffer alpha_engine ! cell_index alpha_engine 0 0)) =
      rgb (bg_color (tr_prev_screen_buffer alpha_engine ! cell_index alpha_engine 0 0))"
    by code_simp
  have a: "tr_colors_equal (mk_color 1 0 0 255) BLANK" using th h1 by blast
  have b: "TR_DrawText (Some ''hi'') 0 0 12 WHITE (mk_color 1 0 0 255) demo_engine =
     TR_DrawText (Some ''hi'') 0 0 12 WHITE BLANK demo_engine" using th h1 by blast
  have c: "\<exists>s' out. TR_EndDrawing alpha_engine = Inr (s', out) \<and> SetCursorPosition 0 0 \<notin> set out"
    using th2 h2 by blast
  show ?thesis using a b c by blast
qed

subsection \<open>Transforming a vertex\<close>

lemma identity_rows:
  "TR_MatrixIdentity = [[1, 0, 0, 0], [0, 1, 0, 0], [0, 0, 1, 0], [0, 0, 0, 1]]"
  by (simp add: TR_MatrixIdentity_def mat_set_def mat_zero_def numeral_eq_Suc)

lemma upt_1_4: "[1..<4] = [1, 2, 3]"
  by (simp add: upt_rec)

lemma homogeneous_product_expand:
  "homogeneous_product ops v mat j =
     f_add ops (f_add ops (f_add ops (f_mul ops (vec_x v) (mat_m mat 0 j))
                                    (f_mul ops (vec_y v) (mat_m mat 1 j)))
                         (f_mul ops (vec_z v) (mat_m mat 2 j)))
              (f_mul ops (f_one ops) (mat_m mat 3 j))"
  unfolding homogeneous_product_def upt_1_4 by simp

lemma vector3_transform_spec:
  "TR_Vector3Transform ops v mat = Inr (transform_spec ops v mat)"
  by (simp add: TR_Vector3Transform_def transform_spec_def homogeneous_product_expand fdiv_def Let_def)

text \<open>
  C7. For every vertex \<open>v\<close> and matrix \<open>M\<close>, whatever the float arithmetic of the platform,
  \<open>TR_Vector3Transform\<close> returns a vector and never the division-by-zero error; with
  \<open>(x, y, z, w)\<close> the homogeneous product \<open>(v.x, v.y, v.z, 1) \<cdot> M\<close> that the code computes
  in floats, the result is \<open>(x, y, z)\<close> when \<open>w\<close> compares equal to zero and
  \<open>(x / w, y / w, z / w)\<close> otherwise.
\<close>

theorem vector3_transform_guarded:
  "TR_Vector3Transform ops v mat = Inr (transform_spec ops v mat) \<and>
   TR_Vector3Transform ops v mat \<noteq> Inl DivisionByZero \<and>
   (f_eq ops (homogeneous_product ops v mat 3) (f_zero ops) \<longrightarrow>
      transform_spec ops v mat =
        \<lparr>vec_x = homogeneous_product ops v mat 0, vec_y = homogeneous_product ops v mat 1,
         vec_z = homogeneous_product ops v mat 2\<rparr>) \<and>
   (\<not> f_eq ops (homogeneous_product ops v mat 3) (f_zero ops) \<longrightarrow>
      transform_spec ops v mat =
        \<lparr>vec_x = f_div ops (homogeneous_product ops v mat 0) (homogeneous_product ops v mat 3),
         vec_y = f_div ops (homogeneous_product ops v mat 1) (homogeneous_product ops v mat 3),
         vec_z = f_div ops (homogeneous_product ops v mat 2) (homogeneous_product ops v mat 3)\<rparr>)"
  by (simp add: vector3_transform_spec transform_spec_def Let_def)

theorem vector3_transform_guarded_witness:
  "homogeneous_product exact_ops (vec3 1 2 3) flat_matrix 3 = 0 \<and>
   TR_Vector3Transform exact_ops (vec3 1 2 3) flat_matrix = Inr (vec3 1 2 3) \<and>
   homogeneous_product exact_ops (vec3 2 4 6) halving_matrix 3 = 2 \<and>
   TR_Vector3Transform exact_ops (vec3 2 4 6) halving_matrix = Inr (vec3 1 2 3)"
proof -
  have rows: "flat_matrix = [[1, 0, 0, 0], [0, 1, 0, 0], [0, 0, 1, 0], [0, 0, 0, 0]]"
    "halving_matrix = [[1, 0, 0, 0], [0, 1, 0, 0], [0, 0, 1, 0], [0, 0, 0, 2]]"
    by (simp_all add: flat_matrix_def halving_matrix_def identity_rows mat_set_def numeral_eq_Suc)
  have hp: "homogeneous_product exact_ops (vec3 1 2 3) flat_matrix 0 = 1"
    "homogeneous_product exact_ops (vec3 1 2 3) flat_matrix 1 = 2"
    "homogeneous_product exact_ops (vec3 1 2 3) flat_matrix 2 = 3"
    "homogeneous_product exact_ops (vec3 1 2 3) flat_matrix 3 = 0"
    "homogeneous_product exact_ops (vec3 2 4 6) halving_matrix 0 = 2"
    "homogeneous_product exact_ops (vec3 2 4 6) halving_matrix 1 = 4"
    "homogeneous_product exact_ops (vec3 2 4 6) halving_matrix 2 = 6"
    "homogeneous_product exact_ops (vec3 2 4 6) halving_matrix 3 = 2"
    by (simp_all add: homogeneous_product_expand rows mat_m_def vec3_def exact_ops_def)
  have ops: "f_eq exact_ops = (\<lambda>p q. p = q)" "f_zero exact_ops = 0"
    "f_div exact_ops = (\<lambda>p q. p / q)"
    by (simp_all add: exact_ops_def)
  have a: "TR_Vector3Transform exact_ops (vec3 1 2 3) flat_matrix = Inr (vec3 1 2 3)"
    using vector3_transform_guarded [of exact_ops "vec3 1 2 3" flat_matrix] hp ops
    by (simp add: vec3_def)
  have b: "TR_Vector3Transform exact_ops (vec3 2 4 6) halving_matrix = Inr (vec3 1 2 3)"
    using vector3_transform_guarded [of exact_ops "vec3 2 4 6" halving_matrix] hp ops
    by (simp add: vec3_def)
  show ?thesis using hp a b by simp
qed

subsection \<open>Matrix identities\<close>

lemma length4: "length xs = 4 \<Longrightarrow> \<exists>a b c d. xs = [a, b, c, d]"
  by (auto simp: numeral_eq_Suc length_Suc_conv)

lemma matrix_ok_rows:
  assumes "matrix_ok M"
  obtains a0 a1 a2 a3 b0 b1 b2 b3 c0 c1 c2 c3 d0 d1 d2 d3 where
    "M = [[a0, a1, a2, a3], [b0, b1, b2, b3], [c0, c1, c2, c3], [d0, d1, d2, d3]]"
proof -
  obtain ra rb rc rd where M: "M = [ra, rb, rc, rd]"
    using assms length4 [of M] by (auto simp: matrix_ok_def)
  then have "length ra = 4" "length rb = 4" "length rc = 4" "length rd = 4"
    using assms by (simp_all add: matrix_ok_def)
  then show ?thesis
    using length4 [of ra] length4 [of rb] length4 [of rc] length4 [of rd] M that by metis
qed

lemma upt4: "[0..<4] = [0, 1, 2, 3]"
  by (simp add: upt_rec [of _ 4] upt_rec [of _ "Suc _"])

lemma multiply_identity_right:
  assumes "matrix_ok M"
  shows "TR_MatrixMultiply M TR_MatrixIdentity = M"
proof -
  obtain a0 a1 a2 a3 b0 b1 b2 b3 c0 c1 c2 c3 d0 d1 d2 d3 where
    M: "M = [[a0, a1, a2, a3], [b0, b1, b2, b3], [c0, c1, c2, c3], [d0, d1, d2, d3]]"
    using assms by (rule matrix_ok_rows)
  show ?thesis
    unfolding M identity_rows TR_MatrixMultiply_def upt4 mat_zero_def
    by (simp add: mat_set_def mat_m_def numeral_eq_Suc)
qed

lemma multiply_identity_left:
  assumes "matrix_ok M"
  shows "TR_MatrixMultiply TR_MatrixIdentity M = M"
proof -
  obtain a0 a1 a2 a3 b0 b1 b2 b3 c0 c1 c2 c3 d0 d1 d2 d3 where
    M: "M = [[a0, a1, a2, a3], [b0, b1, b2, b3], [c0, c1, c2, c3], [d0, d1, d2, d3]]"
    using assms by (rule matrix_ok_rows)
  show ?thesis
    unfolding M identity_rows TR_MatrixMultiply_def upt4 mat_zero_def
    by (simp add: mat_set_def mat_m_def numeral_eq_Suc)
qed

lemma rotate_x_zero: "TR_MatrixRotateX 0 = TR_MatrixIdentity"
  by (simp add: TR_MatrixRotateX_def identity_rows mat_set_def Let_def numeral_eq_Suc)

text \<open>
  C8. For every matrix \<open>M\<close> of four rows of four entries, \<open>TR_MatrixMultiply\<close> of \<open>M\<close>
  and the identity, in either order, is \<open>M\<close>, and the rotation about the X axis by the
  angle 0 is the identity. The entries are real numbers: the equalities are exact.
\<close>

theorem matrix_identity_laws:
  "matrix_ok M \<Longrightarrow>
     TR_MatrixMultiply M TR_MatrixIdentity = M \<and>
     TR_MatrixMultiply TR_MatrixIdentity M = M \<and>
     TR_MatrixRotateX 0 = TR_MatrixIdentity"
  using multiply_identity_right multiply_identity_left rotate_x_zero by simp

theorem matrix_identity_laws_witness:
  "matrix_ok halving_matrix \<and>
   TR_MatrixMultiply halving_matrix TR_MatrixIdentity = halving_matrix \<and>
   TR_MatrixMultiply TR_MatrixIdentity halving_matrix = halving_matrix \<and>
   TR_MatrixRotateX 0 = TR_MatrixIdentity"
proof -
  have ok: "matrix_ok halving_matrix"
    by (simp add: halving_matrix_def identity_rows mat_set_def matrix_ok_def numeral_eq_Suc)
  show ?thesis
    using matrix_identity_laws [OF ok] ok by simp
qed

subsection \<open>Filled triangles and the depth test\<close>

lemma index_position:
  assumes "0 \<le> cx" "cx < (w::int)" "0 \<le> cy"
  shows "(int k mod w = cx \<and> int k div w = cy) \<longleftrightarrow> k = nat (cy * w + cx)"
proof
  assume "int k mod w = cx \<and> int k div w = cy"
  then have "int k = cy * w + cx"
    by (metis mult.commute mult_div_mod_eq)
  then show "k = nat (cy * w + cx)" by simp
next
  assume "k = nat (cy * w + cx)"
  moreover have "0 \<le> cy * w + cx" using assms by simp
  ultimately have "int k = cy * w + cx" by simp
  then show "int k mod w = cx \<and> int k div w = cy"
    using assms by simp
qed

lemma project_vertex_spec:
  "tr_project_vertex ops v mvp s = Inr (screen_vertex ops v mvp s)"
  by (simp add: tr_project_vertex_def screen_vertex_def vector3_transform_spec)

lemma depth_painted_fields [simp]:
  "tr_window_open (depth_painted ops P p c s) = tr_window_open s"
  "tr_buffer_width (depth_painted ops P p c s) = tr_buffer_width s"
  "tr_buffer_height (depth_painted ops P p c s) = tr_buffer_height s"
  "tr_z_buffer_size (depth_painted ops P p c s) = tr_z_buffer_size s"
  "length (tr_screen_buffer (depth_painted ops P p c s)) = length (tr_screen_buffer s)"
  "length (tr_z_buffer (depth_painted ops P p c s)) = length (tr_z_buffer s)"
  by (simp_all add: depth_painted_def)

lemma depth_at_painted [simp]:
  "depth_at ops (depth_painted ops' P q c s) p x y = depth_at ops s p x y"
  by (simp add: depth_at_def)

lemma covers_painted [simp]:
  "covers ops (depth_painted ops' P q c s) p = covers ops s p"
  by (intro ext) (simp add: covers_def)

lemma screen_triangle_painted [simp]:
  "screen_triangle ops v1 v2 v3 mvp (depth_painted ops' P q c s) = screen_triangle ops v1 v2 v3 mvp s"
  by (simp add: screen_triangle_def screen_vertex_def)

lemma depth_painted_none: "depth_painted ops (\<lambda>u v. False) p c s = s"
  by (simp add: depth_painted_def map_nth)

lemma depth_painted_step:
  assumes ok: "depth_ok s" and ib: "in_bounds s x y" and fresh: "\<not> P x y"
  shows "depth_test_pixel ops x y (depth_at ops s p x y) color (depth_painted ops P p color s) =
         Inr (depth_painted ops (\<lambda>u v. P u v \<or> (u = x \<and> v = y)) p color s)"
proof -
  let ?w = "tr_buffer_width s" and ?h = "tr_buffer_height s"
  let ?d = "depth_at ops s p x y"
  let ?st = "depth_painted ops P p color s"
  let ?Q = "\<lambda>u v. P u v \<or> (u = x \<and> v = y)"
  define k where "k = nat (y * ?w + x)"
  have rng: "0 \<le> y * ?w + x \<and> y * ?w + x < ?w * ?h"
    using ib by (intro index_bound) (simp_all add: in_bounds_def)
  then have idx: "y * ?w + x = int k" by (simp add: k_def)
  have lens: "int (length (tr_z_buffer s)) = ?w * ?h"
    "int (length (tr_screen_buffer s)) = ?w * ?h" "tr_z_buffer_size s = ?w * ?h"
    "tr_window_open s"
    using ok by (simp_all add: depth_ok_def engine_ok_def)
  have kz: "k < length (tr_z_buffer s)" and ks: "k < length (tr_screen_buffer s)"
    using rng lens by (simp_all add: k_def nat_less_iff)
  have pos: "(int j mod ?w = x \<and> int j div ?w = y) \<longleftrightarrow> j = k" for j
    unfolding k_def using ib by (intro index_position) (simp_all add: in_bounds_def)
  have posk: "int k mod ?w = x" "int k div ?w = y"
    using pos [of k] by simp_all
  have zk: "tr_z_buffer ?st ! k = tr_z_buffer s ! k"
    using kz fresh by (simp add: depth_painted_def posk)
  show ?thesis
  proof (cases "f_lt ops ?d (tr_z_buffer s ! k)")
    case True
    have z': "(tr_z_buffer ?st)[k := ?d] = tr_z_buffer (depth_painted ops ?Q p color s)"
      using kz True
      by (intro nth_equalityI) (auto simp: depth_painted_def nth_list_update pos posk)
    have s': "(tr_screen_buffer ?st)[k := mk_cell CHR '' '' color color] =
              tr_screen_buffer (depth_painted ops ?Q p color s)"
      using ks kz True
      by (intro nth_equalityI) (auto simp: depth_painted_def nth_list_update pos posk)
    have "depth_test_pixel ops x y ?d color ?st =
          TR_DrawPixel x y color (?st\<lparr>tr_z_buffer := (tr_z_buffer ?st)[k := ?d]\<rparr>)"
      using lens kz True zk by (simp add: depth_test_pixel_def Let_def idx)
    also have "\<dots> = Inr (?st\<lparr>tr_z_buffer := (tr_z_buffer ?st)[k := ?d],
                          tr_screen_buffer := (tr_screen_buffer ?st)[k := mk_cell CHR '' '' color color]\<rparr>)"
      using ib lens ks by (simp add: TR_DrawPixel_def in_bounds_def write_cell_def idx)
    also have "?st\<lparr>tr_z_buffer := (tr_z_buffer ?st)[k := ?d],
                  tr_screen_buffer := (tr_screen_buffer ?st)[k := mk_cell CHR '' '' color color]\<rparr>
               = depth_painted ops ?Q p color s"
      unfolding z' s' by (simp add: depth_painted_def)
    finally show ?thesis by simp
  next
    case False
    have z': "tr_z_buffer ?st = tr_z_buffer (depth_painted ops ?Q p color s)"
      using kz False
      by (intro nth_equalityI) (auto simp: depth_painted_def pos posk)
    have s': "tr_screen_buffer ?st = tr_screen_buffer (depth_painted ops ?Q p color s)"
      using ks kz False
      by (intro nth_equalityI) (auto simp: depth_painted_def pos posk)
    have eq: "?st = depth_painted ops ?Q p color s"
      using z' s' by (simp add: depth_painted_def)
    have "depth_test_pixel ops x y ?d color ?st = Inr ?st"
      using lens kz False zk by (simp add: depth_test_pixel_def Let_def idx)
    then show ?thesis using eq by simp
  qed
qed

lemma scan_rows_bounds:
  "0 \<le> fst (scan_rows ops h p)" "snd (scan_rows ops h p) \<le> h - 1"
  by (simp_all add: scan_rows_def Let_def)

lemma scan_columns_bounds:
  "0 \<le> fst (scan_columns ops w sp)" "snd (scan_columns ops w sp) \<le> w - 1"
  by (simp_all add: scan_columns_def Let_def)

lemma covers_in_bounds: "covers ops s p x y \<Longrightarrow> in_bounds s x y"
  using scan_rows_bounds [where ops = ops and p = p and h = "tr_buffer_height s"]
    scan_columns_bounds [where ops = ops and sp = "scan_edges ops (tr_buffer_width s) p y"
      and w = "tr_buffer_width s"]
  by (auto simp: covers_def in_bounds_def)

lemma fill_triangle_painted:
  assumes ok: "depth_ok s"
  shows "fill_triangle ops p color s = Inr (depth_painted ops (covers ops s p) p color s)"
proof -
  let ?w = "tr_buffer_width s" and ?h = "tr_buffer_height s"
  let ?ys = "fst (scan_rows ops ?h p)" and ?ye = "snd (scan_rows ops ?h p)"
  let ?xs = "\<lambda>y. fst (scan_columns ops ?w (scan_edges ops ?w p y))"
  let ?xe = "\<lambda>y. snd (scan_columns ops ?w (scan_edges ops ?w p y))"
  let ?rows = "\<lambda>j u v. covers ops s p u v \<and> v < j"
  let ?part = "\<lambda>y i u v. ?rows y u v \<or> (v = y \<and> ?xs y \<le> u \<and> u < i)"
  let ?row_body = "\<lambda>y st.
          let sp = scan_edges ops (tr_buffer_width st) p y;
              x_start = fst (scan_columns ops (tr_buffer_width st) sp);
              x_end = snd (scan_columns ops (tr_buffer_width st) sp)
          in for_loop x_start (x_end + 1)
               (\<lambda>x. depth_test_pixel ops x y (pixel_depth ops x_start x_end sp x) color) st"
  have row: "?row_body y (depth_painted ops (?rows y) p color s) =
             Inr (depth_painted ops (?rows (y + 1)) p color s)"
    if y: "?ys \<le> y" "y \<le> ?ye" for y
  proof -
    have yb: "0 \<le> y" "y < ?h"
      using y scan_rows_bounds [where ops = ops and p = p and h = ?h] by simp_all
    have xb: "0 \<le> ?xs y" "?xe y \<le> ?w - 1"
      using scan_columns_bounds [where ops = ops and sp = "scan_edges ops ?w p y" and w = ?w] by simp_all
    have "\<exists>s'. for_loop (?xs y) (?xe y + 1)
                 (\<lambda>x. depth_test_pixel ops x y (depth_at ops s p x y) color)
                 (depth_painted ops (?part y (?xs y)) p color s) = Inr s' \<and>
               s' = depth_painted ops (?part y (max (?xs y) (?xe y + 1))) p color s"
    proof (rule for_loop_inv [where I = "\<lambda>i st. st = depth_painted ops (?part y i) p color s"])
      show "depth_painted ops (?part y (?xs y)) p color s = depth_painted ops (?part y (?xs y)) p color s" ..
    next
      fix i st
      assume i: "?xs y \<le> i" "i < ?xe y + 1" and st: "st = depth_painted ops (?part y i) p color s"
      have ib: "in_bounds s i y"
        using i xb yb by (simp add: in_bounds_def)
      have fresh: "\<not> ?part y i i y" by simp
      have "depth_test_pixel ops i y (depth_at ops s p i y) color (depth_painted ops (?part y i) p color s) =
            Inr (depth_painted ops (\<lambda>u v. ?part y i u v \<or> (u = i \<and> v = y)) p color s)"
        using depth_painted_step [where P = "?part y i", OF ok ib] fresh by blast
      moreover have "(\<lambda>u v. ?part y i u v \<or> (u = i \<and> v = y)) = ?part y (i + 1)"
        using i by (intro ext) auto
      ultimately show "\<exists>st'. depth_test_pixel ops i y (depth_at ops s p i y) color st = Inr st' \<and>
                          st' = depth_painted ops (?part y (i + 1)) p color s"
        using st by simp
    qed
    moreover have "?part y (?xs y) = ?rows y"
      by (intro ext) auto
    moreover have "?part y (max (?xs y) (?xe y + 1)) = ?rows (y + 1)"
    proof (intro ext)
      fix u v
      show "?part y (max (?xs y) (?xe y + 1)) u v = ?rows (y + 1) u v"
      proof (cases "v = y")
        case True
        then show ?thesis using y by (auto simp: covers_def)
      next
        case False
        then show ?thesis by auto
      qed
    qed
    ultimately have "for_loop (?xs y) (?xe y + 1)
                 (\<lambda>x. depth_test_pixel ops x y (depth_at ops s p x y) color)
                 (depth_painted ops (?rows y) p color s) =
               Inr (depth_painted ops (?rows (y + 1)) p color s)"
      by simp
    then show ?thesis
      by (simp add: Let_def depth_at_def)
  qed
  have "\<exists>s'. for_loop ?ys (?ye + 1) ?row_body (depth_painted ops (?rows ?ys) p color s) = Inr s' \<and>
             s' = depth_painted ops (?rows (max ?ys (?ye + 1))) p color s"
  proof (rule for_loop_inv [where I = "\<lambda>j st. st = depth_painted ops (?rows j) p color s"])
    show "depth_painted ops (?rows ?ys) p color s = depth_painted ops (?rows ?ys) p color s" ..
  next
    fix j st
    assume "?ys \<le> j" "j < ?ye + 1" and st: "st = depth_painted ops (?rows j) p color s"
    then show "\<exists>st'. ?row_body j st = Inr st' \<and> st' = depth_painted ops (?rows (j + 1)) p color s"
      using row [of j] by simp
  qed
  moreover have "?rows ?ys = (\<lambda>u v. False)"
    by (intro ext) (auto simp: covers_def)
  moreover have "?rows (max ?ys (?ye + 1)) = covers ops s p"
    by (intro ext) (auto simp: covers_def)
  ultimately have "for_loop ?ys (?ye + 1) ?row_body s =
      Inr (depth_painted ops (covers ops s p) p color s)"
    by (simp add: depth_painted_none)
  then show ?thesis by (simp add: fill_triangle_def)
qed

lemma draw_triangle_painted:
  assumes ok: "depth_ok s"
  shows "TR_DrawTriangle3DFilled ops v1 v2 v3 mvp color s =
         Inr (depth_painted ops (covers ops s (screen_triangle ops v1 v2 v3 mvp s))
                (screen_triangle ops v1 v2 v3 mvp s) color s)"
  using fill_triangle_painted [OF ok]
  by (simp add: TR_DrawTriangle3DFilled_def project_vertex_spec screen_triangle_def)

lemma depth_painted_ok: "depth_ok s \<Longrightarrow> depth_ok (depth_painted ops P p c s)"
  by (simp add: depth_ok_def engine_ok_def) (simp add: depth_painted_def)

lemma depth_painted_z_nth:
  "k < length (tr_z_buffer s) \<Longrightarrow>
     tr_z_buffer (depth_painted ops P p c s) ! k =
       (if P (int k mod tr_buffer_width s) (int k div tr_buffer_width s) \<and>
           f_lt ops (depth_at ops s p (int k mod tr_buffer_width s) (int k div tr_buffer_width s))
             (tr_z_buffer s ! k)
        then depth_at ops s p (int k mod tr_buffer_width s) (int k div tr_buffer_width s)
        else tr_z_buffer s ! k)"
  by (simp add: depth_painted_def)

lemma depth_painted_screen_nth:
  "k < length (tr_screen_buffer s) \<Longrightarrow>
     tr_screen_buffer (depth_painted ops P p c s) ! k =
       (if P (int k mod tr_buffer_width s) (int k div tr_buffer_width s) \<and>
           f_lt ops (depth_at ops s p (int k mod tr_buffer_width s) (int k div tr_buffer_width s))
             (tr_z_buffer s ! k)
        then mk_cell CHR '' '' c c
        else tr_screen_buffer s ! k)"
  by (simp add: depth_painted_def)

lemma depth_painted_buffers:
  "depth_painted ops Q q cq (depth_painted ops P p cp s) =
     s\<lparr>tr_z_buffer := tr_z_buffer (depth_painted ops Q q cq (depth_painted ops P p cp s)),
       tr_screen_buffer := tr_screen_buffer (depth_painted ops Q q cq (depth_painted ops P p cp s))\<rparr>"
  by (simp add: depth_painted_def)

text \<open>
  The depth test at one position, for two depths one of which is less than the other:
  the order of the two tests does not matter.
\<close>

lemma depth_test_twice:
  assumes st: "lt_strict ops"
    and d: "ca \<and> cb \<longrightarrow> f_lt ops da db \<or> f_lt ops db da"
  shows "(if cb \<and> f_lt ops db (if ca \<and> f_lt ops da z then da else z) then db
          else (if ca \<and> f_lt ops da z then da else z)) =
         (if ca \<and> f_lt ops da (if cb \<and> f_lt ops db z then db else z) then da
          else (if cb \<and> f_lt ops db z then db else z))"
    and "(if cb \<and> f_lt ops db (if ca \<and> f_lt ops da z then da else z) then (vb::'c)
          else (if ca \<and> f_lt ops da z then va else v)) =
         (if ca \<and> f_lt ops da (if cb \<and> f_lt ops db z then db else z) then va
          else (if cb \<and> f_lt ops db z then vb else v))"
    and "ca \<Longrightarrow> cb \<Longrightarrow>
         (if cb \<and> f_lt ops db (if ca \<and> f_lt ops da z then da else z) then (vb::'c)
          else (if ca \<and> f_lt ops da z then va else v)) =
         (if f_lt ops da z \<and> f_lt ops da db then va
          else if f_lt ops db z \<and> f_lt ops db da then vb else v)"
proof -
  have asym: "\<not> (f_lt ops da db \<and> f_lt ops db da)"
    using st unfolding lt_strict_def by blast
  have irr: "\<not> f_lt ops da da" "\<not> f_lt ops db db"
    using st unfolding lt_strict_def by blast+
  have tr1: "f_lt ops da db \<Longrightarrow> f_lt ops db z \<Longrightarrow> f_lt ops da z"
    using st unfolding lt_strict_def by blast
  have tr2: "f_lt ops db da \<Longrightarrow> f_lt ops da z \<Longrightarrow> f_lt ops db z"
    using st unfolding lt_strict_def by blast
  show "(if cb \<and> f_lt ops db (if ca \<and> f_lt ops da z then da else z) then db
          else (if ca \<and> f_lt ops da z then da else z)) =
         (if ca \<and> f_lt ops da (if cb \<and> f_lt ops db z then db else z) then da
          else (if cb \<and> f_lt ops db z then db else z))"
    using d asym irr tr1 tr2 by (cases ca; cases cb; cases "f_lt ops da z"; cases "f_lt ops db z") auto
  show "(if cb \<and> f_lt ops db (if ca \<and> f_lt ops da z then da else z) then vb
          else (if ca \<and> f_lt ops da z then va else v)) =
         (if ca \<and> f_lt ops da (if cb \<and> f_lt ops db z then db else z) then va
          else (if cb \<and> f_lt ops db z then vb else v))"
    using d asym irr tr1 tr2 by (cases ca; cases cb; cases "f_lt ops da z"; cases "f_lt ops db z") auto
  show "(if cb \<and> f_lt ops db (if ca \<and> f_lt ops da z then da else z) then vb
          else (if ca \<and> f_lt ops da z then va else v)) =
         (if f_lt ops da z \<and> f_lt ops da db then va
          else if f_lt ops db z \<and> f_lt ops db da then vb else v)"
    if "ca" "cb"
    using that d asym irr tr1 tr2 by (cases "f_lt ops da z"; cases "f_lt ops db z") auto
qed

lemma two_triangles:
  assumes st: "lt_strict ops" and ok: "depth_ok s"
    and pa: "pa = screen_triangle ops a1 a2 a3 mvp_a s"
    and pb: "pb = screen_triangle ops b1 b2 b3 mvp_b s"
    and differ: "\<forall>x y. covers ops s pa x y \<and> covers ops s pb x y \<longrightarrow>
                   f_lt ops (depth_at ops s pa x y) (depth_at ops s pb x y) \<or>
                   f_lt ops (depth_at ops s pb x y) (depth_at ops s pa x y)"
  shows "\<exists>s'. and_then (TR_DrawTriangle3DFilled ops a1 a2 a3 mvp_a col_a s)
                 (TR_DrawTriangle3DFilled ops b1 b2 b3 mvp_b col_b) = Inr s' \<and>
              and_then (TR_DrawTriangle3DFilled ops b1 b2 b3 mvp_b col_b s)
                 (TR_DrawTriangle3DFilled ops a1 a2 a3 mvp_a col_a) = Inr s' \<and>
              (\<forall>x y. covers ops s pa x y \<and> covers ops s pb x y \<longrightarrow>
                 tr_screen_buffer s' ! cell_index s x y =
                   (if f_lt ops (depth_at ops s pa x y) (tr_z_buffer s ! cell_index s x y) \<and>
                       f_lt ops (depth_at ops s pa x y) (depth_at ops s pb x y)
                    then mk_cell CHR '' '' col_a col_a
                    else if f_lt ops (depth_at ops s pb x y) (tr_z_buffer s ! cell_index s x y) \<and>
                            f_lt ops (depth_at ops s pb x y) (depth_at ops s pa x y)
                    then mk_cell CHR '' '' col_b col_b
                    else tr_screen_buffer s ! cell_index s x y))"
proof -
  let ?w = "tr_buffer_width s"
  let ?sa = "depth_painted ops (covers ops s pa) pa col_a s"
  let ?sb = "depth_painted ops (covers ops s pb) pb col_b s"
  let ?sab = "depth_painted ops (covers ops s pb) pb col_b ?sa"
  let ?sba = "depth_painted ops (covers ops s pa) pa col_a ?sb"
  let ?n = "length (tr_z_buffer s)"
  let ?da = "\<lambda>k. depth_at ops s pa (int k mod ?w) (int k div ?w)"
  let ?db = "\<lambda>k. depth_at ops s pb (int k mod ?w) (int k div ?w)"
  let ?ca = "\<lambda>k. covers ops s pa (int k mod ?w) (int k div ?w)"
  let ?cb = "\<lambda>k. covers ops s pb (int k mod ?w) (int k div ?w)"
  have len: "length (tr_screen_buffer s) = ?n"
    using ok by (simp add: depth_ok_def engine_ok_def)
  have da: "TR_DrawTriangle3DFilled ops a1 a2 a3 mvp_a col_a s = Inr ?sa"
    unfolding pa by (rule draw_triangle_painted [OF ok])
  have db: "TR_DrawTriangle3DFilled ops b1 b2 b3 mvp_b col_b s = Inr ?sb"
    unfolding pb by (rule draw_triangle_painted [OF ok])
  have oka: "depth_ok ?sa" and okb: "depth_ok ?sb"
    using ok by (simp_all add: depth_painted_ok)
  have dab: "TR_DrawTriangle3DFilled ops b1 b2 b3 mvp_b col_b ?sa = Inr ?sab"
    using draw_triangle_painted [OF oka, of ops b1 b2 b3 mvp_b col_b]
    by (simp add: pb)
  have dba: "TR_DrawTriangle3DFilled ops a1 a2 a3 mvp_a col_a ?sb = Inr ?sba"
    using draw_triangle_painted [OF okb, of ops a1 a2 a3 mvp_a col_a]
    by (simp add: pa)
  have zab: "tr_z_buffer ?sab ! k =
      (if ?cb k \<and> f_lt ops (?db k) (tr_z_buffer ?sa ! k) then ?db k else tr_z_buffer ?sa ! k)"
    and sab: "tr_screen_buffer ?sab ! k =
      (if ?cb k \<and> f_lt ops (?db k) (tr_z_buffer ?sa ! k)
       then mk_cell CHR '' '' col_b col_b else tr_screen_buffer ?sa ! k)"
    and zba: "tr_z_buffer ?sba ! k =
      (if ?ca k \<and> f_lt ops (?da k) (tr_z_buffer ?sb ! k) then ?da k else tr_z_buffer ?sb ! k)"
    and sba: "tr_screen_buffer ?sba ! k =
      (if ?ca k \<and> f_lt ops (?da k) (tr_z_buffer ?sb ! k)
       then mk_cell CHR '' '' col_a col_a else tr_screen_buffer ?sb ! k)"
    if "k < ?n" for k
    using that len
    by (simp_all add: depth_painted_z_nth depth_painted_screen_nth)
  have za: "tr_z_buffer ?sa ! k =
      (if ?ca k \<and> f_lt ops (?da k) (tr_z_buffer s ! k) then ?da k else tr_z_buffer s ! k)"
    and sa: "tr_screen_buffer ?sa ! k =
      (if ?ca k \<and> f_lt ops (?da k) (tr_z_buffer s ! k)
       then mk_cell CHR '' '' col_a col_a else tr_screen_buffer s ! k)"
    and zb: "tr_z_buffer ?sb ! k =
      (if ?cb k \<and> f_lt ops (?db k) (tr_z_buffer s ! k) then ?db k else tr_z_buffer s ! k)"
    and sb: "tr_screen_buffer ?sb ! k =
      (if ?cb k \<and> f_lt ops (?db k) (tr_z_buffer s ! k)
       then mk_cell CHR '' '' col_b col_b else tr_screen_buffer s ! k)"
    if "k < ?n" for k
    using that len
    by (simp_all add: depth_painted_z_nth depth_painted_screen_nth)
  have dk: "?ca k \<and> ?cb k \<longrightarrow> f_lt ops (?da k) (?db k) \<or> f_lt ops (?db k) (?da k)" for k
    using differ by blast
  have zeq: "tr_z_buffer ?sab = tr_z_buffer ?sba"
  proof (rule nth_equalityI)
    show "length (tr_z_buffer ?sab) = length (tr_z_buffer ?sba)" by simp
  next
    fix k assume "k < length (tr_z_buffer ?sab)"
    then have k: "k < ?n" by simp
    show "tr_z_buffer ?sab ! k = tr_z_buffer ?sba ! k"
      unfolding zab [OF k] zba [OF k] za [OF k] zb [OF k]
      by (rule depth_test_twice(1) [OF st dk])
  qed
  have seq: "tr_screen_buffer ?sab = tr_screen_buffer ?sba"
  proof (rule nth_equalityI)
    show "length (tr_screen_buffer ?sab) = length (tr_screen_buffer ?sba)" by simp
  next
    fix k assume "k < length (tr_screen_buffer ?sab)"
    then have k: "k < ?n" using len by simp
    show "tr_screen_buffer ?sab ! k = tr_screen_buffer ?sba ! k"
      unfolding sab [OF k] sba [OF k] za [OF k] zb [OF k] sa [OF k] sb [OF k]
      by (rule depth_test_twice(2) [OF st dk])
  qed
  have same: "?sab = ?sba"
    using depth_painted_buffers [of ops "covers ops s pb" pb col_b "covers ops s pa" pa col_a s]
      depth_painted_buffers [of ops "covers ops s pa" pa col_a "covers ops s pb" pb col_b s] zeq seq
    by simp
  have cells: "tr_screen_buffer ?sab ! cell_index s x y =
                   (if f_lt ops (depth_at ops s pa x y) (tr_z_buffer s ! cell_index s x y) \<and>
                       f_lt ops (depth_at ops s pa x y) (depth_at ops s pb x y)
                    then mk_cell CHR '' '' col_a col_a
                    else if f_lt ops (depth_at ops s pb x y) (tr_z_buffer s ! cell_index s x y) \<and>
                            f_lt ops (depth_at ops s pb x y) (depth_at ops s pa x y)
                    then mk_cell CHR '' '' col_b col_b
                    else tr_screen_buffer s ! cell_index s x y)"
    if cov: "covers ops s pa x y" "covers ops s pb x y" for x y
  proof -
    define k where "k = cell_index s x y"
    have ib: "in_bounds s x y" using cov(1) by (rule covers_in_bounds)
    have rng: "0 \<le> y * ?w + x \<and> y * ?w + x < ?w * tr_buffer_height s"
      using ib by (intro index_bound) (simp_all add: in_bounds_def)
    have k: "k < ?n"
      using rng ok by (simp add: k_def cell_index_def depth_ok_def nat_less_iff)
    have "int k mod ?w = x \<and> int k div ?w = y"
      using index_position [of x ?w y k] ib by (simp add: in_bounds_def k_def cell_index_def)
    then have posk: "int k mod ?w = x" "int k div ?w = y" by simp_all
    have ck: "?ca k" "?cb k" using cov by (simp_all add: posk)
    show ?thesis
      unfolding k_def [symmetric] sab [OF k] za [OF k] sa [OF k]
      using depth_test_twice(3) [OF st dk ck, where vb = "mk_cell CHR '' '' col_b col_b"
          and z = "tr_z_buffer s ! k" and va = "mk_cell CHR '' '' col_a col_a"
          and v = "tr_screen_buffer s ! k"]
      by (simp add: posk)
  qed
  show ?thesis
    using da db dab dba same cells by (simp add: and_then_def)
qed

lemma demo_screen_triangle_points:
  "demo_screen_triangle z = [vec3 0 0 z, vec3 0 2 z, vec3 2 2 z]"
  by (simp add: demo_screen_triangle_def screen_triangle_def screen_vertex_def transform_spec_def
      homogeneous_product_expand identity_rows mat_m_def vec3_def sort_by_y_def demo_engine_def
      exact_ops_def Let_def)

lemma demo_depth_ok: "depth_ok demo_engine"
  by code_simp

lemma exact_lt_strict: "lt_strict exact_ops"
  by (simp add: lt_strict_def exact_ops_def)

lemma demo_in_bounds:
  "in_bounds demo_engine x y \<Longrightarrow> (x = 0 \<or> x = 1) \<and> (y = 0 \<or> y = 1)"
  by (auto simp: in_bounds_def demo_engine_def)

lemma demo_covers_cases:
  assumes "covers ops demo_engine p x y"
  shows "(x = 0 \<and> y = 0) \<or> (x = 1 \<and> y = 0) \<or> (x = 0 \<and> y = 1) \<or> (x = 1 \<and> y = 1)"
  using demo_in_bounds [OF covers_in_bounds [OF assms]] by auto

lemma demo_draw:
  "draw_demo_triangle z color demo_engine =
     Inr (depth_painted exact_ops (covers exact_ops demo_engine (demo_screen_triangle z))
            (demo_screen_triangle z) color demo_engine)"
  unfolding draw_demo_triangle_def demo_screen_triangle_def
  by (rule draw_triangle_painted [OF demo_depth_ok])

text \<open>
  C5, as amended. Let the order \<^verbatim>\<open><\<close> of the platform's floats be asymmetric and
  transitive, as that of IEEE 754 is. In an open session whose depth buffer has just
  been reset to the far value \<^verbatim>\<open>1.0f\<close>, take two filled triangles whose interpolated
  depths, as the code computes them, differ at every pixel that both cover: one of the
  two is less than the other. Drawing them with \<open>TR_DrawTriangle3DFilled\<close> in either order
  succeeds and gives the same engine, frame buffer and depth buffer; at every pixel that
  both cover, the cell is the pixel of the nearer triangle's color when the nearer depth
  is less than the far value, and the cell is left as it was when it is not.
\<close>

theorem depth_test_order_independent:
  assumes "lt_strict ops" and "depth_ok s"
    and "tr_z_buffer s = replicate (length (tr_z_buffer s)) (f_one ops)"
    and "pa = screen_triangle ops a1 a2 a3 mvp_a s"
    and "pb = screen_triangle ops b1 b2 b3 mvp_b s"
    and "\<forall>x y. covers ops s pa x y \<and> covers ops s pb x y \<longrightarrow>
           f_lt ops (depth_at ops s pa x y) (depth_at ops s pb x y) \<or>
           f_lt ops (depth_at ops s pb x y) (depth_at ops s pa x y)"
  shows "\<exists>s'. and_then (TR_DrawTriangle3DFilled ops a1 a2 a3 mvp_a col_a s)
                 (TR_DrawTriangle3DFilled ops b1 b2 b3 mvp_b col_b) = Inr s' \<and>
              and_then (TR_DrawTriangle3DFilled ops b1 b2 b3 mvp_b col_b s)
                 (TR_DrawTriangle3DFilled ops a1 a2 a3 mvp_a col_a) = Inr s' \<and>
              (\<forall>x y. covers ops s pa x y \<and> covers ops s pb x y \<longrightarrow>
                 tr_screen_buffer s' ! cell_index s x y =
                   (if f_lt ops (depth_at ops s pa x y) (f_one ops) \<and>
                       f_lt ops (depth_at ops s pa x y) (depth_at ops s pb x y)
                    then mk_cell CHR '' '' col_a col_a
                    else if f_lt ops (depth_at ops s pb x y) (f_one ops) \<and>
                            f_lt ops (depth_at ops s pb x y) (depth_at ops s pa x y)
                    then mk_cell CHR '' '' col_b col_b
                    else tr_screen_buffer s ! cell_index s x y))"
proof -
  have far: "tr_z_buffer s ! cell_index s x y = f_one ops" if "covers ops s pa x y" for x y
  proof -
    have ib: "in_bounds s x y" using that by (rule covers_in_bounds)
    have "0 \<le> y * tr_buffer_width s + x \<and>
          y * tr_buffer_width s + x < tr_buffer_width s * tr_buffer_height s"
      using ib by (intro index_bound) (simp_all add: in_bounds_def)
    then have "cell_index s x y < length (tr_z_buffer s)"
      using assms(2) by (simp add: cell_index_def depth_ok_def nat_less_iff)
    then show ?thesis
      using assms(3) by (metis nth_replicate)
  qed
  obtain s' where ab: "and_then (TR_DrawTriangle3DFilled ops a1 a2 a3 mvp_a col_a s)
                 (TR_DrawTriangle3DFilled ops b1 b2 b3 mvp_b col_b) = Inr s'"
    and ba: "and_then (TR_DrawTriangle3DFilled ops b1 b2 b3 mvp_b col_b s)
                 (TR_DrawTriangle3DFilled ops a1 a2 a3 mvp_a col_a) = Inr s'"
    and cells: "\<forall>x y. covers ops s pa x y \<and> covers ops s pb x y \<longrightarrow>
                 tr_screen_buffer s' ! cell_index s x y =
                   (if f_lt ops (depth_at ops s pa x y) (tr_z_buffer s ! cell_index s x y) \<and>
                       f_lt ops (depth_at ops s pa x y) (depth_at ops s pb x y)
                    then mk_cell CHR '' '' col_a col_a
                    else if f_lt ops (depth_at ops s pb x y) (tr_z_buffer s ! cell_index s x y) \<and>
                            f_lt ops (depth_at ops s pb x y) (depth_at ops s pa x y)
                    then mk_cell CHR '' '' col_b col_b
                    else tr_screen_buffer s ! cell_index s x y)"
    using two_triangles [OF assms(1,2,4,5,6), of col_a col_b] by blast
  have "\<forall>x y. covers ops s pa x y \<and> covers ops s pb x y \<longrightarrow>
                 tr_screen_buffer s' ! cell_index s x y =
                   (if f_lt ops (depth_at ops s pa x y) (f_one ops) \<and>
                       f_lt ops (depth_at ops s pa x y) (depth_at ops s pb x y)
                    then mk_cell CHR '' '' col_a col_a
                    else if f_lt ops (depth_at ops s pb x y) (f_one ops) \<and>
                            f_lt ops (depth_at ops s pb x y) (depth_at ops s pa x y)
                    then mk_cell CHR '' '' col_b col_b
                    else tr_screen_buffer s ! cell_index s x y)"
  proof (intro allI impI)
    fix x y assume c: "covers ops s pa x y \<and> covers ops s pb x y"
    show "tr_screen_buffer s' ! cell_index s x y =
                   (if f_lt ops (depth_at ops s pa x y) (f_one ops) \<and>
                       f_lt ops (depth_at ops s pa x y) (depth_at ops s pb x y)
                    then mk_cell CHR '' '' col_a col_a
                    else if f_lt ops (depth_at ops s pb x y) (f_one ops) \<and>
                            f_lt ops (depth_at ops s pb x y) (depth_at ops s pa x y)
                    then mk_cell CHR '' '' col_b col_b
                    else tr_screen_buffer s ! cell_index s x y)"
      using cells [rule_format, OF c] far [of x y] c by simp
  qed
  then show ?thesis using ab ba by blast
qed

theorem depth_test_order_independent_witness:
  "lt_strict exact_ops \<and> depth_ok demo_engine \<and>
   covers exact_ops demo_engine (demo_screen_triangle (1/2)) 0 0 \<and>
   covers exact_ops demo_engine (demo_screen_triangle (1/4)) 0 0 \<and>
   (\<exists>s'. and_then (draw_demo_triangle (1/2) RED demo_engine) (draw_demo_triangle (1/4) BLUE) = Inr s' \<and>
         and_then (draw_demo_triangle (1/4) BLUE demo_engine) (draw_demo_triangle (1/2) RED) = Inr s' \<and>
         tr_screen_buffer s' ! 0 = mk_cell CHR '' '' BLUE BLUE)"
proof -
  let ?pa = "demo_screen_triangle (1/2)" and ?pb = "demo_screen_triangle (1/4)"
  have z: "tr_z_buffer demo_engine = replicate (length (tr_z_buffer demo_engine)) (f_one exact_ops)"
    by code_simp
  have px: "covers exact_ops demo_engine [vec3 0 0 (1/2), vec3 0 2 (1/2), vec3 2 2 (1/2)] 0 0"
    "covers exact_ops demo_engine [vec3 0 0 (1/4), vec3 0 2 (1/4), vec3 2 2 (1/4)] 0 0"
    "depth_at exact_ops demo_engine [vec3 0 0 (1/2), vec3 0 2 (1/2), vec3 2 2 (1/2)] 0 0 = 1/2"
    "depth_at exact_ops demo_engine [vec3 0 0 (1/4), vec3 0 2 (1/4), vec3 2 2 (1/4)] 0 0 = 1/4"
    "depth_at exact_ops demo_engine [vec3 0 0 (1/2), vec3 0 2 (1/2), vec3 2 2 (1/2)] 0 1 = 1/2"
    "depth_at exact_ops demo_engine [vec3 0 0 (1/4), vec3 0 2 (1/4), vec3 2 2 (1/4)] 0 1 = 1/4"
    "depth_at exact_ops demo_engine [vec3 0 0 (1/2), vec3 0 2 (1/2), vec3 2 2 (1/2)] 1 1 = 1/2"
    "depth_at exact_ops demo_engine [vec3 0 0 (1/4), vec3 0 2 (1/4), vec3 2 2 (1/4)] 1 1 = 1/4"
    "\<not> covers exact_ops demo_engine [vec3 0 0 (1/2), vec3 0 2 (1/2), vec3 2 2 (1/2)] 1 0"
    "cell_index demo_engine 0 0 = 0"
    by code_simp+
  note pxs = px [folded demo_screen_triangle_points]
  have lt: "f_lt exact_ops = (\<lambda>p q. p < q)" "f_one exact_ops = 1"
    by (simp_all add: exact_ops_def)
  have differ: "\<forall>x y. covers exact_ops demo_engine ?pa x y \<and> covers exact_ops demo_engine ?pb x y \<longrightarrow>
      f_lt exact_ops (depth_at exact_ops demo_engine ?pa x y) (depth_at exact_ops demo_engine ?pb x y) \<or>
      f_lt exact_ops (depth_at exact_ops demo_engine ?pb x y) (depth_at exact_ops demo_engine ?pa x y)"
  proof (intro allI impI)
    fix x y
    assume c: "covers exact_ops demo_engine ?pa x y \<and> covers exact_ops demo_engine ?pb x y"
    then consider "x = 0 \<and> y = 0" | "x = 1 \<and> y = 0" | "x = 0 \<and> y = 1" | "x = 1 \<and> y = 1"
      using demo_covers_cases [of exact_ops ?pa x y] by blast
    then show "f_lt exact_ops (depth_at exact_ops demo_engine ?pa x y)
                 (depth_at exact_ops demo_engine ?pb x y) \<or>
               f_lt exact_ops (depth_at exact_ops demo_engine ?pb x y)
                 (depth_at exact_ops demo_engine ?pa x y)"
      using c pxs by cases (auto simp: lt)
  qed
  obtain s' where
    ab: "and_then (TR_DrawTriangle3DFilled exact_ops (vec3 (-1) 1 (1/2)) (vec3 (-1) (-1) (1/2))
                     (vec3 1 (-1) (1/2)) TR_MatrixIdentity RED demo_engine)
           (TR_DrawTriangle3DFilled exact_ops (vec3 (-1) 1 (1/4)) (vec3 (-1) (-1) (1/4))
                     (vec3 1 (-1) (1/4)) TR_MatrixIdentity BLUE) = Inr s'"
    and ba: "and_then (TR_DrawTriangle3DFilled exact_ops (vec3 (-1) 1 (1/4)) (vec3 (-1) (-1) (1/4))
                     (vec3 1 (-1) (1/4)) TR_MatrixIdentity BLUE demo_engine)
           (TR_DrawTriangle3DFilled exact_ops (vec3 (-1) 1 (1/2)) (vec3 (-1) (-1) (1/2))
                     (vec3 1 (-1) (1/2)) TR_MatrixIdentity RED) = Inr s'"
    and cells: "\<forall>x y. covers exact_ops demo_engine ?pa x y \<and> covers exact_ops demo_engine ?pb x y \<longrightarrow>
                 tr_screen_buffer s' ! cell_index demo_engine x y =
                   (if f_lt exact_ops (depth_at exact_ops demo_engine ?pa x y) (f_one exact_ops) \<and>
                       f_lt exact_ops (depth_at exact_ops demo_engine ?pa x y)
                         (depth_at exact_ops demo_engine ?pb x y)
                    then mk_cell CHR '' '' RED RED
                    else if f_lt exact_ops (depth_at exact_ops demo_engine ?pb x y) (f_one exact_ops) \<and>
                            f_lt exact_ops (depth_at exact_ops demo_engine ?pb x y)
                              (depth_at exact_ops demo_engine ?pa x y)
                    then mk_cell CHR '' '' BLUE BLUE
                    else tr_screen_buffer demo_engine ! cell_index demo_engine x y)"
    using depth_test_order_independent [OF exact_lt_strict demo_depth_ok z
        demo_screen_triangle_def demo_screen_triangle_def differ, of RED BLUE]
    by blast
  have c00: "tr_screen_buffer s' ! 0 = mk_cell CHR '' '' BLUE BLUE"
    using cells [rule_format, of 0 0] pxs by (simp add: lt)
  have fa: "draw_demo_triangle (1/2) RED = TR_DrawTriangle3DFilled exact_ops (vec3 (-1) 1 (1/2))
                     (vec3 (-1) (-1) (1/2)) (vec3 1 (-1) (1/2)) TR_MatrixIdentity RED"
    and fb: "draw_demo_triangle (1/4) BLUE = TR_DrawTriangle3DFilled exact_ops (vec3 (-1) 1 (1/4))
                     (vec3 (-1) (-1) (1/4)) (vec3 1 (-1) (1/4)) TR_MatrixIdentity BLUE"
    by (intro ext, simp add: draw_demo_triangle_def)+
  show ?thesis
    using exact_lt_strict demo_depth_ok pxs(1,2) ab ba c00 unfolding fa fb by blast
qed

text \<open>
  As stated the claim fails: two triangles at the depths 2 and 3, beyond the far value,
  cover the pixel \<open>(0, 0)\<close> with different depths, and after drawing them in either order
  the cell is still the black background, not the red of the nearer one. Every value
  computed here is an integer or a half of one, so the floats of the platform compute
  the same.
\<close>

theorem far_triangles_counterexample:
  "depth_ok demo_engine \<and> tr_z_buffer demo_engine = replicate 4 1 \<and>
   covers exact_ops demo_engine (demo_screen_triangle 2) 0 0 \<and>
   covers exact_ops demo_engine (demo_screen_triangle 3) 0 0 \<and>
   depth_at exact_ops demo_engine (demo_screen_triangle 2) 0 0 = 2 \<and>
   depth_at exact_ops demo_engine (demo_screen_triangle 3) 0 0 = 3 \<and>
   \<not> (\<exists>x y. covers exact_ops demo_engine (demo_screen_triangle 2) x y \<and>
            covers exact_ops demo_engine (demo_screen_triangle 3) x y \<and>
            depth_at exact_ops demo_engine (demo_screen_triangle 2) x y =
              depth_at exact_ops demo_engine (demo_screen_triangle 3) x y) \<and>
   and_then (draw_demo_triangle 2 RED demo_engine) (draw_demo_triangle 3 BLUE) = Inr demo_engine \<and>
   and_then (draw_demo_triangle 3 BLUE demo_engine) (draw_demo_triangle 2 RED) = Inr demo_engine \<and>
   tr_screen_buffer demo_engine ! cell_index demo_engine 0 0 = mk_cell CHR '' '' BLACK BLACK \<and>
   mk_cell CHR '' '' BLACK BLACK \<noteq> mk_cell CHR '' '' RED RED"
proof -
  let ?pa = "demo_screen_triangle 2" and ?pb = "demo_screen_triangle 3"
  have px: "covers exact_ops demo_engine [vec3 0 0 2, vec3 0 2 2, vec3 2 2 2] 0 0"
    "covers exact_ops demo_engine [vec3 0 0 3, vec3 0 2 3, vec3 2 2 3] 0 0"
    "depth_at exact_ops demo_engine [vec3 0 0 2, vec3 0 2 2, vec3 2 2 2] 0 0 = 2"
    "depth_at exact_ops demo_engine [vec3 0 0 3, vec3 0 2 3, vec3 2 2 3] 0 0 = 3"
    "depth_at exact_ops demo_engine [vec3 0 0 2, vec3 0 2 2, vec3 2 2 2] 0 1 = 2"
    "depth_at exact_ops demo_engine [vec3 0 0 3, vec3 0 2 3, vec3 2 2 3] 0 1 = 3"
    "depth_at exact_ops demo_engine [vec3 0 0 2, vec3 0 2 2, vec3 2 2 2] 1 1 = 2"
    "depth_at exact_ops demo_engine [vec3 0 0 3, vec3 0 2 3, vec3 2 2 3] 1 1 = 3"
    "\<not> covers exact_ops demo_engine [vec3 0 0 2, vec3 0 2 2, vec3 2 2 2] 1 0"
    by code_simp+
  note pxs = px [folded demo_screen_triangle_points]
  have basics: "tr_z_buffer demo_engine = replicate 4 1"
    "tr_screen_buffer demo_engine ! cell_index demo_engine 0 0 = mk_cell CHR '' '' BLACK BLACK"
    "mk_cell CHR '' '' BLACK BLACK \<noteq> mk_cell CHR '' '' RED RED"
    by code_simp+
  have pa: "depth_painted exact_ops (covers exact_ops demo_engine [vec3 0 0 2, vec3 0 2 2, vec3 2 2 2])
              [vec3 0 0 2, vec3 0 2 2, vec3 2 2 2] RED demo_engine = demo_engine"
    by code_simp
  have pb: "depth_painted exact_ops (covers exact_ops demo_engine [vec3 0 0 3, vec3 0 2 3, vec3 2 2 3])
              [vec3 0 0 3, vec3 0 2 3, vec3 2 2 3] BLUE demo_engine = demo_engine"
    by code_simp
  have da: "draw_demo_triangle 2 RED demo_engine = Inr demo_engine"
    using demo_draw [of 2 RED] pa by (simp add: demo_screen_triangle_points)
  have db: "draw_demo_triangle 3 BLUE demo_engine = Inr demo_engine"
    using demo_draw [of 3 BLUE] pb by (simp add: demo_screen_triangle_points)
  have no_tie: "\<not> (\<exists>x y. covers exact_ops demo_engine ?pa x y \<and> covers exact_ops demo_engine ?pb x y \<and>
            depth_at exact_ops demo_engine ?pa x y = depth_at exact_ops demo_engine ?pb x y)"
  proof
    assume "\<exists>x y. covers exact_ops demo_engine ?pa x y \<and> covers exact_ops demo_engine ?pb x y \<and>
            depth_at exact_ops demo_engine ?pa x y = depth_at exact_ops demo_engine ?pb x y"
    then obtain x y where c: "covers exact_ops demo_engine ?pa x y"
      and e: "depth_at exact_ops demo_engine ?pa x y = depth_at exact_ops demo_engine ?pb x y"
      by blast
    from demo_covers_cases [OF c]
    consider "x = 0 \<and> y = 0" | "x = 1 \<and> y = 0" | "x = 0 \<and> y = 1" | "x = 1 \<and> y = 1"
      by blast
    then show False using c e pxs by cases auto
  qed
  show ?thesis
    using demo_depth_ok basics pxs(1-4) no_tie da db by (simp add: and_then_def)
qed

end
